theory Spec2Isabelle
  imports Main
begin

section \<open>Errors\<close>

text \<open>
  The exceptions the program raises or handles. Every exception carries its message.
  The classes are the ones \<open>input_error\<close> distinguishes; \<open>OverflowError\<close> is the one
  \<open>date + timedelta\<close> raises and falls under its last handler (\<open>except Exception\<close>).
\<close>

datatype error =
    ValueError string
  | KeyError string
  | IndexError string
  | AttributeError string
  | OverflowError string

section \<open>Fields\<close>

text \<open>
  A Python \<open>str\<close> is modelled as a \<open>string\<close>: the characters are the code points
  below 256. Among these the decimal digits (the class \<open>\d\<close> of module \<open>re\<close>) are
  \<open>0\<close> to \<open>9\<close>.
\<close>

definition isdigit :: "char \<Rightarrow> bool" where
  "isdigit c = (c \<in> set ''0123456789'')"

text \<open>\<open>\d{n}\<close>: consumes exactly \<open>n\<close> digits and returns the rest of the input.\<close>

fun match_digits :: "nat \<Rightarrow> string \<Rightarrow> string option" where
  "match_digits 0 s = Some s"
| "match_digits (Suc n) [] = None"
| "match_digits (Suc n) (c # s) = (if isdigit c then match_digits n s else None)"

text \<open>
  \<open>$\<close> (without \<open>re.MULTILINE\<close>): matches at the end of the string and just before
  a newline that ends the string.
\<close>

definition at_dollar :: "string \<Rightarrow> bool" where
  "at_dollar rest = (rest = [] \<or> rest = [CHR 0x0A])"

text \<open>\<open>re.match(r'^\d{10}$', v)\<close>, as a truth value.\<close>

definition re_match_phone :: "string \<Rightarrow> bool" where
  "re_match_phone v = (case match_digits 10 v of None \<Rightarrow> False | Some rest \<Rightarrow> at_dollar rest)"

text \<open>
  The constructors of \<open>Name\<close>, \<open>Phone\<close> and \<open>Birthday\<close> validate and then store the
  value: a field object is modelled by the value it stores.
\<close>

definition Name :: "string \<Rightarrow> error + string" where
  "Name v = (if v = [] then Inl (ValueError ''Please enter the name.'') else Inr v)"

definition Phone :: "string \<Rightarrow> error + string" where
  "Phone v =
     (if \<not> re_match_phone v then Inl (ValueError ''Phone number must be exactly 10 digits.'')
      else Inr v)"

section \<open>Records\<close>

record Record =
  name :: string
  phones :: "string list"
  birthday :: "string option"

text \<open>
  The methods mutate the record; the model passes the record in and returns it with
  the result, also when the method raises, so that what a failing call leaves behind
  is part of the model.
\<close>

definition add_phone :: "string \<Rightarrow> Record \<Rightarrow> (error + unit) \<times> Record" where
  "add_phone phone r =
     (case Phone phone of
        Inl e \<Rightarrow> (Inl e, r)
      | Inr p \<Rightarrow> (Inr (), r\<lparr>phones := phones r @ [p]\<rparr>))"

fun find_in :: "string list \<Rightarrow> string \<Rightarrow> string option" where
  "find_in [] phone = None"
| "find_in (p # ps) phone = (if p = phone then Some p else find_in ps phone)"

definition find_phone :: "string \<Rightarrow> Record \<Rightarrow> string option" where
  "find_phone phone r = find_in (phones r) phone"

definition remove_phone :: "string \<Rightarrow> Record \<Rightarrow> bool \<times> Record" where
  "remove_phone phone r =
     (case find_phone phone r of
        Some phone_obj \<Rightarrow> (True, r\<lparr>phones := remove1 phone_obj (phones r)\<rparr>)
      | None \<Rightarrow> (False, r))"

definition edit_phone :: "string \<Rightarrow> string \<Rightarrow> Record \<Rightarrow> (error + unit) \<times> Record" where
  "edit_phone old_phone new_phone r =
     (case find_phone old_phone r of
        None \<Rightarrow> (Inl (ValueError (''Phone number '' @ old_phone @ '' not found.'')), r)
      | Some old_phone_obj \<Rightarrow>
          (case add_phone new_phone r of
             (Inl e, r') \<Rightarrow> (Inl e, r')
           | (Inr u, r') \<Rightarrow> (Inr (), snd (remove_phone old_phone r'))))"

section \<open>Calendar dates\<close>

text \<open>
  \<open>datetime.date\<close>, as the library's reference implementation computes it: the
  proleptic Gregorian calendar, years 1 to 9999, day 1 being 1 January of year 1.
  Python's integers are unbounded (\<open>int\<close>), \<open>//\<close> and \<open>%\<close> round down as \<open>div\<close> and
  \<open>mod\<close> do. The messages of the library's exceptions are kept without their
  arguments.
\<close>

record date =
  year :: int
  month :: int
  day :: int

definition is_leap :: "int \<Rightarrow> bool" where
  "is_leap y = (y mod 4 = 0 \<and> (y mod 100 \<noteq> 0 \<or> y mod 400 = 0))"

definition days_before_year :: "int \<Rightarrow> int" where
  "days_before_year y = (let y' = y - 1 in y' * 365 + y' div 4 - y' div 100 + y' div 400)"

definition DAYS_IN_MONTH :: "int list" where
  "DAYS_IN_MONTH = [-1, 31, 28, 31, 30, 31, 30, 31, 31, 30, 31, 30, 31]"

definition DAYS_BEFORE_MONTH :: "int list" where
  "DAYS_BEFORE_MONTH = [-1, 0, 31, 59, 90, 120, 151, 181, 212, 243, 273, 304, 334]"

definition days_in_month :: "int \<Rightarrow> int \<Rightarrow> int" where
  "days_in_month y m = (if m = 2 \<and> is_leap y then 29 else DAYS_IN_MONTH ! nat m)"

definition days_before_month :: "int \<Rightarrow> int \<Rightarrow> int" where
  "days_before_month y m = DAYS_BEFORE_MONTH ! nat m + (if m > 2 \<and> is_leap y then 1 else 0)"

definition ymd2ord :: "int \<Rightarrow> int \<Rightarrow> int \<Rightarrow> int" where
  "ymd2ord y m d = days_before_year y + days_before_month y m + d"

definition MAXORDINAL :: int where
  "MAXORDINAL = 3652059"

text \<open>\<open>date(year, month, day)\<close>: the constructor checks the fields.\<close>

definition new_date :: "int \<Rightarrow> int \<Rightarrow> int \<Rightarrow> error + date" where
  "new_date y m d =
     (if \<not> (1 \<le> y \<and> y \<le> 9999) then Inl (ValueError ''year is out of range'')
      else if \<not> (1 \<le> m \<and> m \<le> 12) then Inl (ValueError ''month must be in 1..12'')
      else if \<not> (1 \<le> d \<and> d \<le> days_in_month y m)
        then Inl (ValueError ''day is out of range for month'')
      else Inr \<lparr>year = y, month = m, day = d\<rparr>)"

text \<open>\<open>d.replace(year=y)\<close> constructs a new date from the changed fields.\<close>

definition replace_year :: "date \<Rightarrow> int \<Rightarrow> error + date" where
  "replace_year d y = new_date y (month d) (day d)"

definition toordinal :: "date \<Rightarrow> int" where
  "toordinal d = ymd2ord (year d) (month d) (day d)"

definition weekday :: "date \<Rightarrow> int" where
  "weekday d = (toordinal d + 6) mod 7"

text \<open>\<open>a < b\<close> compares year, month and day in this order.\<close>

definition date_less :: "date \<Rightarrow> date \<Rightarrow> bool" where
  "date_less a b =
     (year a < year b \<or>
      (year a = year b \<and> (month a < month b \<or> (month a = month b \<and> day a < day b))))"

text \<open>\<open>(a - b).days\<close>\<close>

definition days_between :: "date \<Rightarrow> date \<Rightarrow> int" where
  "days_between a b = toordinal a - toordinal b"

definition ord2ymd :: "int \<Rightarrow> int \<times> int \<times> int" where
  "ord2ymd n0 =
     (let n = n0 - 1;
          n400 = n div 146097; n = n mod 146097;
          y = n400 * 400 + 1;
          n100 = n div 36524; n = n mod 36524;
          n4 = n div 1461; n = n mod 1461;
          n1 = n div 365; n = n mod 365;
          y = y + n100 * 100 + n4 * 4 + n1
      in if n1 = 4 \<or> n100 = 4 then (y - 1, 12, 31)
         else
           let leapyear = (n1 = 3 \<and> (n4 \<noteq> 24 \<or> n100 = 3));
               m = (n + 50) div 32;
               preceding = DAYS_BEFORE_MONTH ! nat m + (if m > 2 \<and> leapyear then 1 else 0)
           in if preceding > n
              then let m = m - 1;
                       preceding = preceding
                         - (DAYS_IN_MONTH ! nat m + (if m = 2 \<and> leapyear then 1 else 0))
                   in (y, m, n - preceding + 1)
              else (y, m, n - preceding + 1))"

definition fromordinal :: "int \<Rightarrow> date" where
  "fromordinal n = (case ord2ymd n of (y, m, d) \<Rightarrow> \<lparr>year = y, month = m, day = d\<rparr>)"

text \<open>\<open>d + timedelta(days=k)\<close>\<close>

definition date_add :: "date \<Rightarrow> int \<Rightarrow> error + date" where
  "date_add d k =
     (let ord = toordinal d + k
      in if 0 < ord \<and> ord \<le> MAXORDINAL then Inr (fromordinal ord)
         else Inl (OverflowError ''date value out of range''))"

text \<open>
  \<open>d.strftime("%Y-%m-%d")\<close>: the year in four digits, month and day in two. (For a
  year below 1000 the padding of \<open>%Y\<close> is the platform's; the model pads with zeros.)
\<close>

definition digit_char :: "int \<Rightarrow> char" where
  "digit_char n = char_of (48 + n)"

definition strftime :: "date \<Rightarrow> string" where
  "strftime d =
     [digit_char (year d div 1000 mod 10), digit_char (year d div 100 mod 10),
      digit_char (year d div 10 mod 10), digit_char (year d mod 10), CHR ''-'',
      digit_char (month d div 10 mod 10), digit_char (month d mod 10), CHR ''-'',
      digit_char (day d div 10 mod 10), digit_char (day d mod 10)]"

subsection \<open>Parsing a date\<close>

text \<open>
  \<open>datetime.strptime(s, "%d.%m.%Y").date()\<close>. The library matches \<open>s\<close> from its start
  against the pattern
  \<^verbatim>\<open>(3[0-1]|[1-2]\d|0[1-9]|[1-9]| [1-9])\.(1[0-2]|0[1-9]|[1-9])\.(\d\d\d\d)\<close>,
  raises \<open>ValueError\<close> when it does not match or the match does not end the string,
  converts the three groups with \<open>int\<close> and constructs the date. No alternative of the
  first two groups matches a dot, so these are the text before the first dot and the
  text between the first two dots.
\<close>

definition digit_val :: "char \<Rightarrow> int" where
  "digit_val c = of_char c - 48"

fun match_d :: "string \<Rightarrow> int option" where
  "match_d [a, b] =
     (if a = CHR ''3'' \<and> b \<in> set ''01'' then Some (30 + digit_val b)
      else if a \<in> set ''12'' \<and> isdigit b then Some (10 * digit_val a + digit_val b)
      else if a = CHR ''0'' \<and> b \<in> set ''123456789'' then Some (digit_val b)
      else if a = CHR '' '' \<and> b \<in> set ''123456789'' then Some (digit_val b)
      else None)"
| "match_d [a] = (if a \<in> set ''123456789'' then Some (digit_val a) else None)"
| "match_d s = None"

fun match_m :: "string \<Rightarrow> int option" where
  "match_m [a, b] =
     (if a = CHR ''1'' \<and> b \<in> set ''012'' then Some (10 + digit_val b)
      else if a = CHR ''0'' \<and> b \<in> set ''123456789'' then Some (digit_val b)
      else None)"
| "match_m [a] = (if a \<in> set ''123456789'' then Some (digit_val a) else None)"
| "match_m s = None"

fun match_Y :: "string \<Rightarrow> int option" where
  "match_Y [a, b, c, d] =
     (if isdigit a \<and> isdigit b \<and> isdigit c \<and> isdigit d
      then Some (1000 * digit_val a + 100 * digit_val b + 10 * digit_val c + digit_val d)
      else None)"
| "match_Y s = None"

definition not_dot :: "char \<Rightarrow> bool" where
  "not_dot c = (c \<noteq> CHR ''.'')"

definition strptime :: "string \<Rightarrow> error + date" where
  "strptime s =
     (case dropWhile not_dot s of
        [] \<Rightarrow> Inl (ValueError ''time data does not match format'')
      | dot1 # s1 \<Rightarrow>
          (case dropWhile not_dot s1 of
             [] \<Rightarrow> Inl (ValueError ''time data does not match format'')
           | dot2 # s2 \<Rightarrow>
               (case match_d (takeWhile not_dot s) of
                  None \<Rightarrow> Inl (ValueError ''time data does not match format'')
                | Some d \<Rightarrow>
                    (case match_m (takeWhile not_dot s1) of
                       None \<Rightarrow> Inl (ValueError ''time data does not match format'')
                     | Some m \<Rightarrow>
                         (case match_Y s2 of
                            None \<Rightarrow> Inl (ValueError ''time data does not match format'')
                          | Some y \<Rightarrow> new_date y m d)))))"

definition Birthday :: "string \<Rightarrow> error + string" where
  "Birthday v =
     (case strptime v of
        Inl e \<Rightarrow> Inl (ValueError ''birthday format must be DD.MM.YYYY'')
      | Inr d \<Rightarrow> Inr v)"

text \<open>\<open>Record(name, birthday=None)\<close>: an empty birthday string counts as none.\<close>

definition Record_init :: "string \<Rightarrow> string option \<Rightarrow> error + Record" where
  "Record_init nm b =
     (case Name nm of
        Inl e \<Rightarrow> Inl e
      | Inr n \<Rightarrow>
          (case b of
             None \<Rightarrow> Inr \<lparr>name = n, phones = [], birthday = None\<rparr>
           | Some s \<Rightarrow>
               if s = [] then Inr \<lparr>name = n, phones = [], birthday = None\<rparr>
               else (case Birthday s of
                       Inl e \<Rightarrow> Inl e
                     | Inr v \<Rightarrow> Inr \<lparr>name = n, phones = [], birthday = Some v\<rparr>)))"

definition add_birthday :: "string \<Rightarrow> Record \<Rightarrow> (error + unit) \<times> Record" where
  "add_birthday b r =
     (case Birthday b of
        Inl e \<Rightarrow> (Inl e, r)
      | Inr v \<Rightarrow> (Inr (), r\<lparr>birthday := Some v\<rparr>))"

section \<open>The address book\<close>

text \<open>
  \<open>AddressBook\<close> is a \<open>UserDict\<close>: its \<open>data\<close> is a dictionary from names to records
  that keeps the order of insertion. It is modelled as an association list; the
  operations of the class keep the keys distinct.
\<close>

type_synonym AddressBook = "(string \<times> Record) list"

text \<open>\<open>data[k] = v\<close>: a present key keeps its place, a new one goes to the end.\<close>

fun dict_set :: "string \<Rightarrow> Record \<Rightarrow> AddressBook \<Rightarrow> AddressBook" where
  "dict_set k v [] = [(k, v)]"
| "dict_set k v ((k', v') # kvs) =
     (if k' = k then (k', v) # kvs else (k', v') # dict_set k v kvs)"

text \<open>\<open>data.get(k, None)\<close>\<close>

fun dict_get :: "AddressBook \<Rightarrow> string \<Rightarrow> Record option" where
  "dict_get [] k = None"
| "dict_get ((k', v') # kvs) k = (if k' = k then Some v' else dict_get kvs k)"

text \<open>\<open>del data[k]\<close>, for a key that is present\<close>

fun dict_del :: "string \<Rightarrow> AddressBook \<Rightarrow> AddressBook" where
  "dict_del k [] = []"
| "dict_del k ((k', v') # kvs) = (if k' = k then kvs else (k', v') # dict_del k kvs)"

definition dict_values :: "AddressBook \<Rightarrow> Record list" where
  "dict_values book = map snd book"

definition add_record :: "Record \<Rightarrow> AddressBook \<Rightarrow> AddressBook" where
  "add_record r book = dict_set (name r) r book"

definition delete :: "string \<Rightarrow> AddressBook \<Rightarrow> bool \<times> AddressBook" where
  "delete nm book =
     (if dict_get book nm \<noteq> None then (True, dict_del nm book) else (False, book))"

definition find_record :: "string \<Rightarrow> AddressBook \<Rightarrow> Record option" where
  "find_record nm book = dict_get book nm"

subsection \<open>Upcoming birthdays\<close>

definition find_next_weekday :: "date \<Rightarrow> error + date" where
  "find_next_weekday start_date =
     (let days_ahead = (if weekday start_date = 5 then 2
                        else if weekday start_date = 6 then 1 else 0)
      in date_add start_date days_ahead)"

definition adjust_for_weekend :: "date \<Rightarrow> error + date" where
  "adjust_for_weekend b = (if weekday b \<ge> 5 then find_next_weekday b else Inr b)"

text \<open>
  The date the loop of \<open>get_upcoming_birthdays\<close> computes for a stored birthday before
  it tests the window: the birthday in the year of \<open>today\<close>, or in the next year when
  that day is past.
\<close>

definition birthday_this_year :: "date \<Rightarrow> string \<Rightarrow> error + date" where
  "birthday_this_year today b =
     (case strptime b of
        Inl e \<Rightarrow> Inl e
      | Inr birth_day \<Rightarrow>
          (case replace_year birth_day (year today) of
             Inl e \<Rightarrow> Inl e
           | Inr this_year \<Rightarrow>
               if date_less this_year today then replace_year birth_day (year today + 1)
               else Inr this_year))"

text \<open>An entry of the result: the dictionary with the keys \<open>name\<close> and \<open>birthday\<close>.\<close>

type_synonym upcoming = "string \<times> string"

text \<open>The body of the loop for one record: the entry it appends, if any.\<close>

definition upcoming_entry :: "date \<Rightarrow> int \<Rightarrow> Record \<Rightarrow> error + upcoming option" where
  "upcoming_entry today days r =
     (case birthday r of
        None \<Rightarrow> Inr None
      | Some b \<Rightarrow>
          (case birthday_this_year today b of
             Inl e \<Rightarrow> Inl e
           | Inr d \<Rightarrow>
               if 0 \<le> days_between d today \<and> days_between d today \<le> days then
                 (case adjust_for_weekend d of
                    Inl e \<Rightarrow> Inl e
                  | Inr adjusted \<Rightarrow> Inr (Some (name r, strftime adjusted)))
               else Inr None))"

fun upcoming_loop ::
  "date \<Rightarrow> int \<Rightarrow> Record list \<Rightarrow> upcoming list \<Rightarrow> error + upcoming list" where
  "upcoming_loop today days [] upcoming_birthdays = Inr upcoming_birthdays"
| "upcoming_loop today days (r # rs) upcoming_birthdays =
     (case upcoming_entry today days r of
        Inl e \<Rightarrow> Inl e
      | Inr None \<Rightarrow> upcoming_loop today days rs upcoming_birthdays
      | Inr (Some entry) \<Rightarrow> upcoming_loop today days rs (upcoming_birthdays @ [entry]))"

text \<open>
  The method has one parameter, \<open>days\<close>, and reads the date from the system clock
  (\<open>date.today()\<close>). The clock is part of the environment the program runs in.
\<close>

record environment =
  clock_date :: date

definition date_today :: "environment \<Rightarrow> date" where
  "date_today env = clock_date env"

definition get_upcoming_birthdays ::
  "environment \<Rightarrow> AddressBook \<Rightarrow> int \<Rightarrow> error + upcoming list" where
  "get_upcoming_birthdays env book days =
     (let today = date_today env in upcoming_loop today days (dict_values book) [])"

text \<open>The call without an argument: \<open>days=7\<close>.\<close>

definition get_upcoming_birthdays_default ::
  "environment \<Rightarrow> AddressBook \<Rightarrow> error + upcoming list" where
  "get_upcoming_birthdays_default env book = get_upcoming_birthdays env book 7"

section \<open>Commands\<close>

text \<open>
  \<open>input_error\<close> turns the exception a command raises into the command's result. A
  command is modelled by its body, which returns the exception or the result
  together with the address book as the call leaves it, and by the decorated command.
\<close>

definition input_error :: "error + string \<Rightarrow> string" where
  "input_error res =
     (case res of
        Inr s \<Rightarrow> s
      | Inl (ValueError m) \<Rightarrow> ''Give me name and phone please.''
      | Inl (KeyError m) \<Rightarrow> ''Contact doesn't exist.''
      | Inl (IndexError m) \<Rightarrow> ''Enter the argument for the command''
      | Inl (AttributeError m) \<Rightarrow> ''Invalid contact.''
      | Inl (OverflowError m) \<Rightarrow> ''An unexpected error: '' @ m)"

text \<open>
  \<open>add_contact\<close>: \<open>name, phone, *_ = args\<close> needs two arguments at least. The record
  found or created is an object the book refers to, so adding the phone to it changes
  the entry of the book under \<open>name\<close>.
\<close>

definition add_contact_body ::
  "string list \<Rightarrow> AddressBook \<Rightarrow> (error + string) \<times> AddressBook" where
  "add_contact_body args book =
     (case args of
        nm # phone # rest \<Rightarrow>
          (case (case find_record nm book of
                   Some r \<Rightarrow> Inr (r, ''Contact updated.'', book)
                 | None \<Rightarrow>
                     (case Record_init nm None of
                        Inl e \<Rightarrow> Inl e
                      | Inr r \<Rightarrow> Inr (r, ''Contact added.'', add_record r book))) of
             Inl e \<Rightarrow> (Inl e, book)
           | Inr (r, message, book') \<Rightarrow>
               if phone \<noteq> [] then
                 (case add_phone phone r of
                    (Inl e, r') \<Rightarrow> (Inl e, dict_set nm r' book')
                  | (Inr u, r') \<Rightarrow> (Inr message, dict_set nm r' book'))
               else (Inr message, book'))
      | _ \<Rightarrow> (Inl (ValueError ''not enough values to unpack''), book))"

definition add_contact :: "string list \<Rightarrow> AddressBook \<Rightarrow> string \<times> AddressBook" where
  "add_contact args book =
     (case add_contact_body args book of (res, book') \<Rightarrow> (input_error res, book'))"

section \<open>Notions of the specification\<close>

text \<open>
  A sequence of operations on the address book. \<open>find\<close> returns the record and
  leaves the book as it is.
\<close>

datatype operation = Add_record Record | Delete string | Find string

fun apply_operation :: "operation \<Rightarrow> AddressBook \<Rightarrow> AddressBook" where
  "apply_operation (Add_record r) book = add_record r book"
| "apply_operation (Delete nm) book = snd (delete nm book)"
| "apply_operation (Find nm) book = book"

fun run :: "operation list \<Rightarrow> AddressBook \<Rightarrow> AddressBook" where
  "run [] book = book"
| "run (x # xs) book = run xs (apply_operation x book)"

text \<open>A date the constructor accepts.\<close>

definition valid_date :: "date \<Rightarrow> bool" where
  "valid_date d =
     (1 \<le> year d \<and> year d \<le> 9999 \<and> 1 \<le> month d \<and> month d \<le> 12 \<and>
      1 \<le> day d \<and> day d \<le> days_in_month (year d) (month d))"

text \<open>The date \<open>k\<close> days after \<open>d\<close>.\<close>

definition plus_days :: "date \<Rightarrow> int \<Rightarrow> date" where
  "plus_days d k = fromordinal (toordinal d + k)"

text \<open>
  The weekend shift in the specification's words: a Saturday moves forward two days,
  a Sunday one day, any other day stays. (\<open>weekday\<close> counts from Monday, 0.)
\<close>

definition weekend_shift :: "date \<Rightarrow> date" where
  "weekend_shift d =
     (if weekday d = 5 then plus_days d 2
      else if weekday d = 6 then plus_days d 1
      else d)"

text \<open>
  The window test of the specification, on the candidate date as it is before the
  shift.
\<close>

definition in_window :: "date \<Rightarrow> int \<Rightarrow> date \<Rightarrow> bool" where
  "in_window today horizon d =
     (0 \<le> days_between d today \<and> days_between d today \<le> horizon)"

text \<open>
  The entry the specification gives a record: none without a birthday or outside the
  window, else the name with the shifted candidate date.
\<close>

definition spec_entry :: "date \<Rightarrow> int \<Rightarrow> Record \<Rightarrow> upcoming option" where
  "spec_entry today horizon r =
     (case birthday r of
        None \<Rightarrow> None
      | Some b \<Rightarrow>
          (case birthday_this_year today b of
             Inl e \<Rightarrow> None
           | Inr d \<Rightarrow>
               if in_window today horizon d then Some (name r, strftime (weekend_shift d))
               else None))"

text \<open>
  Every stored birthday has a candidate date: the date can be constructed in the year
  of \<open>today\<close> and, when that day is past, in the next year.
\<close>

definition candidates_exist :: "date \<Rightarrow> Record list \<Rightarrow> bool" where
  "candidates_exist today rs =
     list_all (\<lambda>r. case birthday r of
                     None \<Rightarrow> True
                   | Some b \<Rightarrow> (case birthday_this_year today b of
                                 Inl e \<Rightarrow> False
                               | Inr d \<Rightarrow> True)) rs"

text \<open>
  The birthday window of the specification, with \<open>today\<close> and the horizon as its
  inputs: the records in their order, each with a birthday contributing its name and
  shifted candidate date when the unshifted candidate lies in the window. A candidate
  that cannot be constructed is an error.
\<close>

fun spec_upcoming :: "date \<Rightarrow> int \<Rightarrow> Record list \<Rightarrow> error + upcoming list" where
  "spec_upcoming today horizon [] = Inr []"
| "spec_upcoming today horizon (r # rs) =
     (case birthday r of
        None \<Rightarrow> spec_upcoming today horizon rs
      | Some b \<Rightarrow>
          (case birthday_this_year today b of
             Inl e \<Rightarrow> Inl e
           | Inr d \<Rightarrow>
               (case spec_upcoming today horizon rs of
                  Inl e \<Rightarrow> Inl e
                | Inr es \<Rightarrow>
                    Inr ((if in_window today horizon d
                          then [(name r, strftime (weekend_shift d))] else []) @ es))))"

section \<open>Properties of the fields\<close>

lemma match_digits_Some:
  "match_digits n s = Some rest \<longleftrightarrow>
     (n \<le> length s \<and> list_all isdigit (take n s) \<and> rest = drop n s)"
proof (induction n s rule: match_digits.induct)
  case (1 s)
  show ?case by auto
next
  case (2 n)
  show ?case by simp
next
  case (3 n c s)
  then show ?case by (cases "isdigit c") auto
qed

lemma re_match_phone_iff:
  "re_match_phone v \<longleftrightarrow>
     (length v = 10 \<and> list_all isdigit v) \<or>
     (length v = 11 \<and> list_all isdigit (take 10 v) \<and> v ! 10 = CHR 0x0A)"
proof (cases "match_digits 10 v")
  case None
  then have "\<not> (10 \<le> length v \<and> list_all isdigit (take 10 v))"
    using match_digits_Some [of 10 v "drop 10 v"] by auto
  with None show ?thesis
    by (auto simp: re_match_phone_def)
next
  case (Some rest)
  then have *: "10 \<le> length v" "list_all isdigit (take 10 v)" "rest = drop 10 v"
    using match_digits_Some [of 10 v rest] by auto
  have "drop 10 v = [CHR 0x0A] \<longleftrightarrow> length v = 11 \<and> v ! 10 = CHR 0x0A"
  proof
    assume d: "drop 10 v = [CHR 0x0A]"
    then have "length (drop 10 v) = 1" by simp
    then have l: "length v = 11" by simp
    moreover have "v ! 10 = hd (drop 10 v)"
      using l by (simp add: hd_drop_conv_nth)
    ultimately show "length v = 11 \<and> v ! 10 = CHR 0x0A" using d by simp
  next
    assume a: "length v = 11 \<and> v ! 10 = CHR 0x0A"
    then have "drop 10 v = [v ! 10]"
      using Cons_nth_drop_Suc [of 10 v] by simp
    with a show "drop 10 v = [CHR 0x0A]" by simp
  qed
  with Some * show ?thesis
    by (auto simp: re_match_phone_def at_dollar_def)
qed

lemma Phone_ten_digits: "length v = 10 \<Longrightarrow> list_all isdigit v \<Longrightarrow> Phone v = Inr v"
  by (simp add: Phone_def re_match_phone_iff)

lemma Phone_Inr: "Phone v = Inr p \<Longrightarrow> p = v"
  by (auto simp: Phone_def split: if_splits)

lemma Phone_cases:
  "Phone v = Inr v \<or> Phone v = Inl (ValueError ''Phone number must be exactly 10 digits.'')"
  by (simp add: Phone_def)

section \<open>Properties of the phone list\<close>

lemma find_in_None: "find_in ps p = None \<longleftrightarrow> p \<notin> set ps"
  by (induction ps) auto

lemma find_in_Some: "find_in ps p = Some q \<longleftrightarrow> q = p \<and> p \<in> set ps"
  by (induction ps) auto

lemma count_list_remove1: "count_list (remove1 x xs) x = count_list xs x - 1"
  by (induction xs) auto

lemma in_set_count_list: "x \<in> set xs \<longleftrightarrow> 0 < count_list xs x"
  by (induction xs) auto

lemma add_phone_result:
  "add_phone p r = (Inr (), r\<lparr>phones := phones r @ [p]\<rparr>) \<or>
   add_phone p r = (Inl (ValueError ''Phone number must be exactly 10 digits.''), r)"
  using Phone_cases [of p] by (auto simp: add_phone_def)

lemma remove_phone_snd: "snd (remove_phone p r) = r\<lparr>phones := remove1 p (phones r)\<rparr>"
proof (cases "find_phone p r")
  case None
  then have "p \<notin> set (phones r)" by (simp add: find_phone_def find_in_None)
  with None show ?thesis by (simp add: remove_phone_def remove1_idem)
next
  case (Some q)
  then have "q = p" by (simp add: find_phone_def find_in_Some)
  with Some show ?thesis by (simp add: remove_phone_def)
qed

lemma remove_phone_fst: "fst (remove_phone p r) \<longleftrightarrow> p \<in> set (phones r)"
proof (cases "find_in (phones r) p")
  case None
  then show ?thesis by (simp add: remove_phone_def find_phone_def find_in_None [symmetric])
next
  case (Some q)
  then have "p \<in> set (phones r)" by (simp add: find_in_Some)
  with Some show ?thesis by (simp add: remove_phone_def find_phone_def)
qed

lemma edit_phone_success:
  assumes "fst (edit_phone old new r) = Inr ()"
  shows "snd (edit_phone old new r) = r\<lparr>phones := remove1 old (phones r @ [new])\<rparr>"
    and "old \<in> set (phones r)" and "Phone new = Inr new"
proof -
  from assms obtain q where q: "find_phone old r = Some q"
    by (cases "find_phone old r") (auto simp: edit_phone_def)
  then show o: "old \<in> set (phones r)" by (simp add: find_phone_def find_in_Some)
  from assms q show p: "Phone new = Inr new"
    using Phone_cases [of new] by (auto simp: edit_phone_def add_phone_def)
  from q p show "snd (edit_phone old new r) = r\<lparr>phones := remove1 old (phones r @ [new])\<rparr>"
    by (simp add: edit_phone_def add_phone_def remove_phone_snd)
qed

text \<open>A failing \<open>edit_phone\<close> leaves the record as it was, whatever made it fail.\<close>

lemma edit_phone_failure:
  "fst (edit_phone old new r) = Inl e \<Longrightarrow> snd (edit_phone old new r) = r"
  using add_phone_result [of new r]
  by (auto simp: edit_phone_def split: option.splits)

lemma edit_phone_not_found:
  "find_phone old r = None \<Longrightarrow>
   edit_phone old new r = (Inl (ValueError (''Phone number '' @ old @ '' not found.'')), r)"
  by (simp add: edit_phone_def)

text \<open>
  Claim C2, as the code has it. When \<open>edit_phone old new\<close> succeeds on a record that
  contains \<open>old\<close>, \<open>find_phone new\<close> returns a match and the number of stored phones is
  the one before the call. \<open>find_phone old\<close> then returns none exactly when \<open>old\<close> and
  \<open>new\<close> differ and the record held \<open>old\<close> once: only the first occurrence is removed,
  and the list may hold a value several times.
\<close>

theorem edit_phone_replaces_first:
  assumes "find_phone old r \<noteq> None" and "fst (edit_phone old new r) = Inr ()"
  shows "find_phone new (snd (edit_phone old new r)) = Some new \<and>
         length (phones (snd (edit_phone old new r))) = length (phones r) \<and>
         (find_phone old (snd (edit_phone old new r)) = None \<longleftrightarrow>
            old \<noteq> new \<and> count_list (phones r) old = 1)"
proof -
  note s = edit_phone_success [OF assms(2)]
  have o: "old \<in> set (phones r)" by (rule s(2))
  have c: "0 < count_list (phones r) old" using o by (simp add: in_set_count_list)
  have len: "length (phones (snd (edit_phone old new r))) = length (phones r)"
    using o by (simp add: s(1) length_remove1)
  have "0 < count_list (remove1 old (phones r @ [new])) new"
    using c o by (cases "old = new") (simp_all add: count_list_remove1 remove1_append)
  then have new: "find_phone new (snd (edit_phone old new r)) = Some new"
    by (simp add: s(1) find_phone_def find_in_Some in_set_count_list)
  have "old \<notin> set (remove1 old (phones r @ [new])) \<longleftrightarrow>
          old \<noteq> new \<and> count_list (phones r) old = 1"
    using c by (auto simp: in_set_count_list count_list_remove1)
  then have "find_phone old (snd (edit_phone old new r)) = None \<longleftrightarrow>
           old \<noteq> new \<and> count_list (phones r) old = 1"
    by (simp add: s(1) find_phone_def find_in_None)
  with new len show ?thesis by simp
qed

text \<open>
  The theorem of C2 at a record with the one phone 1234567890, edited to 0987654321.
\<close>

theorem edit_phone_replaces_first_witness:
  "find_phone ''1234567890'' \<lparr>name = ''Bob'', phones = [''1234567890''], birthday = None\<rparr>
     \<noteq> None \<and>
   fst (edit_phone ''1234567890'' ''0987654321''
          \<lparr>name = ''Bob'', phones = [''1234567890''], birthday = None\<rparr>) = Inr () \<and>
   find_phone ''0987654321'' (snd (edit_phone ''1234567890'' ''0987654321''
          \<lparr>name = ''Bob'', phones = [''1234567890''], birthday = None\<rparr>))
     = Some ''0987654321'' \<and>
   find_phone ''1234567890'' (snd (edit_phone ''1234567890'' ''0987654321''
          \<lparr>name = ''Bob'', phones = [''1234567890''], birthday = None\<rparr>)) = None"
proof -
  let ?r = "\<lparr>name = ''Bob'', phones = [''1234567890''], birthday = None\<rparr>"
  have p: "Phone ''0987654321'' = Inr ''0987654321''"
    by (simp add: Phone_ten_digits isdigit_def)
  have f: "find_phone ''1234567890'' ?r \<noteq> None"
    by (simp add: find_phone_def)
  have s: "fst (edit_phone ''1234567890'' ''0987654321'' ?r) = Inr ()"
    by (simp add: edit_phone_def find_phone_def add_phone_def p)
  show ?thesis
    using edit_phone_replaces_first [OF f s] f s by simp
qed

text \<open>
  C2 as stated fails on a record that holds \<open>old\<close> twice: \<open>edit_phone\<close> succeeds and
  \<open>find_phone old\<close> still returns a match.
\<close>

theorem edit_phone_old_remains_counterexample:
  "find_phone ''1234567890''
     \<lparr>name = ''Bob'', phones = [''1234567890'', ''1234567890''], birthday = None\<rparr> \<noteq> None \<and>
   fst (edit_phone ''1234567890'' ''0987654321''
     \<lparr>name = ''Bob'', phones = [''1234567890'', ''1234567890''], birthday = None\<rparr>) = Inr () \<and>
   find_phone ''1234567890'' (snd (edit_phone ''1234567890'' ''0987654321''
     \<lparr>name = ''Bob'', phones = [''1234567890'', ''1234567890''], birthday = None\<rparr>))
   = Some ''1234567890''"
proof -
  have p: "Phone ''0987654321'' = Inr ''0987654321''"
    by (simp add: Phone_ten_digits isdigit_def)
  show ?thesis
    by (simp add: edit_phone_def find_phone_def add_phone_def remove_phone_def p)
qed

text \<open>
  Claim C4 at the input the code accepts against it: the ten digits 1234567890
  followed by a newline have length 11 and pass the validation of \<open>Phone\<close>, since
  \<open>$\<close> also matches before a newline that ends the string.
\<close>

theorem Phone_accepts_trailing_newline:
  "length (''1234567890'' @ [CHR 0x0A]) = 11 \<and>
   Phone (''1234567890'' @ [CHR 0x0A]) = Inr (''1234567890'' @ [CHR 0x0A])"
  by (simp add: Phone_def re_match_phone_iff isdigit_def)

text \<open>
  Claim C9, as the code has it. For a phone value the validation accepts (every
  string of ten digits is one), \<open>add_phone\<close> succeeds and \<open>find_phone\<close> then returns
  a match. After \<open>remove_phone p\<close>, \<open>find_phone p\<close> returns none exactly when the
  record held \<open>p\<close> at most once: \<open>remove_phone\<close> removes the first occurrence only.
\<close>

theorem add_find_remove_find:
  "(Phone p = Inr p \<longrightarrow>
      fst (add_phone p r) = Inr () \<and> find_phone p (snd (add_phone p r)) = Some p) \<and>
   (find_phone p (snd (remove_phone p r)) = None \<longleftrightarrow> count_list (phones r) p \<le> 1)"
proof -
  have "find_phone p (snd (remove_phone p r)) = None \<longleftrightarrow> count_list (phones r) p \<le> 1"
    by (auto simp: remove_phone_snd find_phone_def find_in_None in_set_count_list
        count_list_remove1)
  then show ?thesis
    by (simp add: add_phone_def find_phone_def find_in_Some)
qed

text \<open>The theorem of C9 at the phone 1234567890 and a record that holds it once.\<close>

theorem add_find_remove_find_witness:
  "Phone ''1234567890'' = Inr ''1234567890'' \<and>
   find_phone ''1234567890'' (snd (add_phone ''1234567890''
      \<lparr>name = ''Bob'', phones = [''1234567890''], birthday = None\<rparr>)) = Some ''1234567890'' \<and>
   find_phone ''1234567890'' (snd (remove_phone ''1234567890''
      \<lparr>name = ''Bob'', phones = [''1234567890''], birthday = None\<rparr>)) = None"
proof -
  have p: "Phone ''1234567890'' = Inr ''1234567890''"
    by (simp add: Phone_ten_digits isdigit_def)
  show ?thesis
    using add_find_remove_find
      [of "''1234567890''" "\<lparr>name = ''Bob'', phones = [''1234567890''], birthday = None\<rparr>"] p
    by simp
qed

text \<open>
  C9 as stated fails on a record to which the same phone was added twice: after
  \<open>remove_phone\<close>, \<open>find_phone\<close> still returns a match.
\<close>

theorem remove_find_duplicate_counterexample:
  "find_phone ''1234567890'' (snd (remove_phone ''1234567890''
     (snd (add_phone ''1234567890'' (snd (add_phone ''1234567890''
        \<lparr>name = ''Bob'', phones = [], birthday = None\<rparr>))))))
   = Some ''1234567890''"
proof -
  have p: "Phone ''1234567890'' = Inr ''1234567890''"
    by (simp add: Phone_ten_digits isdigit_def)
  show ?thesis
    by (simp add: add_phone_def remove_phone_def find_phone_def p)
qed

section \<open>Properties of the address book\<close>

lemma dict_get_dict_set:
  "dict_get (dict_set k v book) k' = (if k' = k then Some v else dict_get book k')"
  by (induction book) auto

lemma dict_set_keys_present:
  "dict_get book k = Some r \<Longrightarrow> map fst (dict_set k v book) = map fst book"
  by (induction book) (auto split: if_splits)

lemma dict_set_absent: "dict_get book k = None \<Longrightarrow> dict_set k v book = book @ [(k, v)]"
  by (induction book) (auto split: if_splits)

lemma dict_set_same: "dict_get book k = Some r \<Longrightarrow> dict_set k r book = book"
  by (induction book) (auto split: if_splits)

lemma dict_set_twice: "dict_set k v' (dict_set k v book) = dict_set k v' book"
  by (induction book) auto

lemma set_dict_set: "set (dict_set k v book) \<subseteq> insert (k, v) (set book)"
  by (induction book) (auto split: if_splits)

lemma set_dict_del: "set (dict_del k book) \<subseteq> set book"
  by (induction book) (auto split: if_splits)

lemma keys_dict_set:
  "distinct (map fst book) \<Longrightarrow> distinct (map fst (dict_set k v book))"
proof (induction book)
  case Nil
  show ?case by simp
next
  case (Cons p book)
  have "fst ` set (dict_set k v book) \<subseteq> insert k (fst ` set book)"
    using set_dict_set [of k v book] by force
  with Cons show ?case by (cases p) auto
qed

lemma keys_dict_del:
  "distinct (map fst book) \<Longrightarrow> distinct (map fst (dict_del k book))"
proof (induction book)
  case Nil
  show ?case by simp
next
  case (Cons p book)
  have "fst ` set (dict_del k book) \<subseteq> fst ` set book"
    using set_dict_del [of k book] by force
  with Cons show ?case by (cases p) auto
qed

lemma dict_get_dict_del:
  "distinct (map fst book) \<Longrightarrow>
   dict_get (dict_del k book) k' = (if k' = k then None else dict_get book k')"
proof (induction book)
  case Nil
  show ?case by simp
next
  case (Cons p book)
  have n: "\<And>x. x \<notin> fst ` set book \<Longrightarrow> dict_get book x = None"
    by (induction book) auto
  from Cons n show ?case by (cases p) auto
qed

lemma apply_operation_set:
  "set (apply_operation x book) \<subseteq> set book \<union> {(name r, r) | r. True}"
proof (cases x)
  case (Add_record r)
  then show ?thesis using set_dict_set [of "name r" r book] by (auto simp: add_record_def)
next
  case (Delete nm)
  then show ?thesis using set_dict_del [of nm book] by (auto simp: delete_def)
next
  case (Find nm)
  then show ?thesis by simp
qed

lemma run_set: "set (run xs book) \<subseteq> set book \<union> {(name r, r) | r. True}"
proof (induction xs arbitrary: book)
  case Nil
  show ?case by simp
next
  case (Cons x xs)
  show ?case using Cons [of "apply_operation x book"] apply_operation_set [of x book]
    by auto
qed

lemma run_distinct: "distinct (map fst book) \<Longrightarrow> distinct (map fst (run xs book))"
proof (induction xs arbitrary: book)
  case Nil
  then show ?case by simp
next
  case (Cons x xs)
  have "distinct (map fst (apply_operation x book))"
    using Cons.prems by (cases x) (simp_all add: add_record_def delete_def keys_dict_set keys_dict_del)
  then show ?case using Cons.IH by simp
qed

text \<open>
  Claim C8. After any sequence of \<open>add_record\<close>, \<open>delete\<close> and \<open>find\<close> from the empty
  address book, every record stored has the name that is its key.
\<close>

theorem stored_name_is_key:
  "(k, r) \<in> set (run xs []) \<Longrightarrow> name r = k"
  using run_set [of xs "[]"] by auto

text \<open>The theorem of C8 at a sequence of four operations that leaves one record.\<close>

theorem stored_name_is_key_witness:
  "(''Bob'', \<lparr>name = ''Bob'', phones = [], birthday = None\<rparr>)
     \<in> set (run [Add_record \<lparr>name = ''Ann'', phones = [], birthday = None\<rparr>, Find ''Ann'',
                  Add_record \<lparr>name = ''Bob'', phones = [], birthday = None\<rparr>, Delete ''Ann''] []) \<and>
   name \<lparr>name = ''Bob'', phones = [], birthday = None\<rparr> = ''Bob''"
proof -
  have m: "(''Bob'', \<lparr>name = ''Bob'', phones = [], birthday = None\<rparr>)
     \<in> set (run [Add_record \<lparr>name = ''Ann'', phones = [], birthday = None\<rparr>, Find ''Ann'',
                  Add_record \<lparr>name = ''Bob'', phones = [], birthday = None\<rparr>, Delete ''Ann''] [])"
    by (simp add: add_record_def delete_def)
  show ?thesis using stored_name_is_key [OF m] m by simp
qed

section \<open>Properties of the commands\<close>

lemma Phone_nonempty: "Phone phone = Inr p \<Longrightarrow> phone \<noteq> []"
  by (auto simp: Phone_def re_match_phone_iff split: if_splits)

lemma add_contact_body_present:
  assumes "find_record nm book = Some r"
  shows "add_contact_body (nm # phone # rest) book =
     (if phone \<noteq> [] then
        (case add_phone phone r of
           (Inl e, r') \<Rightarrow> (Inl e, dict_set nm r' book)
         | (Inr u, r') \<Rightarrow> (Inr ''Contact updated.'', dict_set nm r' book))
      else (Inr ''Contact updated.'', book))"
  using assms by (simp add: add_contact_body_def)

lemma add_contact_body_absent:
  assumes "find_record nm book = None"
  shows "add_contact_body (nm # phone # rest) book =
     (if nm = [] then (Inl (ValueError ''Please enter the name.''), book)
      else if phone \<noteq> [] then
        (case add_phone phone \<lparr>name = nm, phones = [], birthday = None\<rparr> of
           (Inl e, r') \<Rightarrow> (Inl e, dict_set nm r' (book @ [(nm, \<lparr>name = nm, phones = [], birthday = None\<rparr>)]))
         | (Inr u, r') \<Rightarrow> (Inr ''Contact added.'', dict_set nm r' (book @ [(nm, \<lparr>name = nm, phones = [], birthday = None\<rparr>)])))
      else (Inr ''Contact added.'', book @ [(nm, \<lparr>name = nm, phones = [], birthday = None\<rparr>)]))"
  using assms
  by (simp add: add_contact_body_def Record_init_def Name_def add_record_def
      find_record_def dict_set_absent)

lemma dict_set_snoc:
  "dict_get book k = None \<Longrightarrow> dict_set k v' (book @ [(k, v)]) = book @ [(k, v')]"
  by (induction book) (auto split: if_splits)

text \<open>A failing add-contact for a name that is present leaves the book as it was.\<close>

lemma add_contact_present_failure:
  assumes "find_record nm book = Some r"
    and "fst (add_contact_body (nm # phone # rest) book) = Inl e"
  shows "snd (add_contact_body (nm # phone # rest) book) = book"
  using assms add_phone_result [of phone r]
  by (auto simp: add_contact_body_present find_record_def dict_set_same split: if_splits)

text \<open>
  Claim C10. With a phone the validation accepts, add-contact for a name that is
  present returns \<open>Contact updated.\<close> and replaces the record under that name by the
  same record with the phone appended (its name, its earlier phones and its birthday
  stay); the keys and their order stay, and every other name finds what it found
  before. For a name that is absent it returns \<open>Contact added.\<close> and appends a record
  with that one phone and no birthday. (A name is a non-empty string; the empty
  string is rejected by \<open>Name\<close> and leaves the book as it is.)
\<close>

theorem add_contact_appends:
  assumes "Phone phone = Inr phone"
  shows "(\<forall>r. find_record nm book = Some r \<longrightarrow>
            add_contact (nm # phone # rest) book =
              (''Contact updated.'', dict_set nm (r\<lparr>phones := phones r @ [phone]\<rparr>) book) \<and>
            map fst (snd (add_contact (nm # phone # rest) book)) = map fst book \<and>
            find_record nm (snd (add_contact (nm # phone # rest) book)) =
              Some (r\<lparr>phones := phones r @ [phone]\<rparr>)) \<and>
         (\<forall>k. k \<noteq> nm \<longrightarrow>
            find_record k (snd (add_contact (nm # phone # rest) book)) = find_record k book) \<and>
         (find_record nm book = None \<and> nm \<noteq> [] \<longrightarrow>
            add_contact (nm # phone # rest) book =
              (''Contact added.'', book @ [(nm, \<lparr>name = nm, phones = [phone], birthday = None\<rparr>)])) \<and>
         (find_record nm book = None \<and> nm = [] \<longrightarrow>
            add_contact (nm # phone # rest) book = (''Give me name and phone please.'', book))"
proof -
  have ne: "phone \<noteq> []" using assms by (rule Phone_nonempty)
  have ap: "\<And>r. add_phone phone r = (Inr (), r\<lparr>phones := phones r @ [phone]\<rparr>)"
    using assms by (simp add: add_phone_def)
  have present: "add_contact (nm # phone # rest) book =
      (''Contact updated.'', dict_set nm (r\<lparr>phones := phones r @ [phone]\<rparr>) book)"
    if "find_record nm book = Some r" for r
    using that ne by (simp add: add_contact_def add_contact_body_present ap input_error_def)
  have absent: "add_contact (nm # phone # rest) book =
      (''Contact added.'', book @ [(nm, \<lparr>name = nm, phones = [phone], birthday = None\<rparr>)])"
    if "find_record nm book = None" "nm \<noteq> []"
    using that ne
    by (simp add: add_contact_def add_contact_body_absent ap input_error_def dict_set_snoc
        find_record_def)
  have absent_empty: "add_contact (nm # phone # rest) book = (''Give me name and phone please.'', book)"
    if "find_record nm book = None" "nm = []"
    using that by (simp add: add_contact_def add_contact_body_absent input_error_def)
  have other: "find_record k (snd (add_contact (nm # phone # rest) book)) = find_record k book"
    if "k \<noteq> nm" for k
  proof (cases "find_record nm book")
    case None
    have g: "dict_get (book @ [(nm, v)]) k = dict_get book k" for v
      using that by (induction book) auto
    show ?thesis
    proof (cases "nm = []")
      case True
      show ?thesis using absent_empty [OF None True] by simp
    next
      case False
      with None show ?thesis by (simp add: absent find_record_def g)
    qed
  next
    case (Some r)
    then show ?thesis using that by (simp add: present find_record_def dict_get_dict_set)
  qed
  have keys: "map fst (snd (add_contact (nm # phone # rest) book)) = map fst book"
    if "find_record nm book = Some r" for r
    using that by (simp add: present find_record_def dict_set_keys_present)
  have stored: "find_record nm (snd (add_contact (nm # phone # rest) book)) =
              Some (r\<lparr>phones := phones r @ [phone]\<rparr>)"
    if "find_record nm book = Some r" for r
    using that by (simp add: present find_record_def dict_get_dict_set)
  from present absent absent_empty other keys stored show ?thesis by blast
qed

text \<open>The theorem of C10 at a book of two records, adding a second phone to one of them.\<close>

theorem add_contact_appends_witness:
  "Phone ''0987654321'' = Inr ''0987654321'' \<and>
   find_record ''Bob'' [(''Ann'', \<lparr>name = ''Ann'', phones = [], birthday = None\<rparr>),
       (''Bob'', \<lparr>name = ''Bob'', phones = [''1234567890''], birthday = Some ''15.06.1990''\<rparr>)]
     = Some \<lparr>name = ''Bob'', phones = [''1234567890''], birthday = Some ''15.06.1990''\<rparr> \<and>
   add_contact [''Bob'', ''0987654321'']
      [(''Ann'', \<lparr>name = ''Ann'', phones = [], birthday = None\<rparr>),
       (''Bob'', \<lparr>name = ''Bob'', phones = [''1234567890''], birthday = Some ''15.06.1990''\<rparr>)]
     = (''Contact updated.'',
        [(''Ann'', \<lparr>name = ''Ann'', phones = [], birthday = None\<rparr>),
         (''Bob'', \<lparr>name = ''Bob'', phones = [''1234567890'', ''0987654321''],
                   birthday = Some ''15.06.1990''\<rparr>)]) \<and>
   find_record ''Ann'' (snd (add_contact [''Bob'', ''0987654321'']
      [(''Ann'', \<lparr>name = ''Ann'', phones = [], birthday = None\<rparr>),
       (''Bob'', \<lparr>name = ''Bob'', phones = [''1234567890''], birthday = Some ''15.06.1990''\<rparr>)]))
     = Some \<lparr>name = ''Ann'', phones = [], birthday = None\<rparr> \<and>
   find_record ''Cid'' [(''Ann'', \<lparr>name = ''Ann'', phones = [], birthday = None\<rparr>)] = None \<and>
   add_contact [''Cid'', ''0987654321''] [(''Ann'', \<lparr>name = ''Ann'', phones = [], birthday = None\<rparr>)]
     = (''Contact added.'',
        [(''Ann'', \<lparr>name = ''Ann'', phones = [], birthday = None\<rparr>),
         (''Cid'', \<lparr>name = ''Cid'', phones = [''0987654321''], birthday = None\<rparr>)]) \<and>
   find_record [] [(''Ann'', \<lparr>name = ''Ann'', phones = [], birthday = None\<rparr>)] = None \<and>
   add_contact [[], ''0987654321''] [(''Ann'', \<lparr>name = ''Ann'', phones = [], birthday = None\<rparr>)]
     = (''Give me name and phone please.'',
        [(''Ann'', \<lparr>name = ''Ann'', phones = [], birthday = None\<rparr>)])"
proof -
  let ?ann = "\<lparr>name = ''Ann'', phones = [], birthday = None\<rparr>"
  let ?book = "[(''Ann'', ?ann),
       (''Bob'', \<lparr>name = ''Bob'', phones = [''1234567890''], birthday = Some ''15.06.1990''\<rparr>)]"
  have p: "Phone ''0987654321'' = Inr ''0987654321''"
    by (simp add: Phone_ten_digits isdigit_def)
  have f: "find_record ''Bob'' ?book
     = Some \<lparr>name = ''Bob'', phones = [''1234567890''], birthday = Some ''15.06.1990''\<rparr>"
    by (simp add: find_record_def)
  have a: "find_record ''Ann'' ?book = Some ?ann" by (simp add: find_record_def)
  have n: "find_record ''Cid'' [(''Ann'', ?ann)] = None" by (simp add: find_record_def)
  have e: "find_record [] [(''Ann'', ?ann)] = None" by (simp add: find_record_def)
  note t1 = add_contact_appends [OF p, of "''Bob''" ?book "[]"]
  note t2 = add_contact_appends [OF p, of "''Cid''" "[(''Ann'', ?ann)]" "[]"]
  note t3 = add_contact_appends [OF p, of "[]" "[(''Ann'', ?ann)]" "[]"]
  from t1 f have 1: "add_contact [''Bob'', ''0987654321''] ?book =
      (''Contact updated.'', dict_set ''Bob''
         \<lparr>name = ''Bob'', phones = [''1234567890'', ''0987654321''],
            birthday = Some ''15.06.1990''\<rparr> ?book)"
    by simp
  from t1 a have 2: "find_record ''Ann'' (snd (add_contact [''Bob'', ''0987654321''] ?book))
      = Some ?ann"
    by simp
  from t2 n have 3: "add_contact [''Cid'', ''0987654321''] [(''Ann'', ?ann)] =
      (''Contact added.'', [(''Ann'', ?ann)] @
         [(''Cid'', \<lparr>name = ''Cid'', phones = [''0987654321''], birthday = None\<rparr>)])"
    by simp
  from t3 e have 4: "add_contact [[], ''0987654321''] [(''Ann'', ?ann)] =
      (''Give me name and phone please.'', [(''Ann'', ?ann)])"
    by simp
  from p f 1 2 3 4 n e show ?thesis by simp
qed

text \<open>
  Claim C3 at the input where the code leaves a partial change: add-contact with the
  new name Bob and the invalid phone 123 on the empty book fails with the
  \<open>ValueError\<close> of \<open>Phone\<close>, and the book then holds a record for Bob without phones,
  since the record is stored before the phone is validated.
\<close>

theorem add_contact_invalid_phone_creates_record:
  "Phone ''123'' = Inl (ValueError ''Phone number must be exactly 10 digits.'') \<and>
   add_contact_body [''Bob'', ''123''] [] =
     (Inl (ValueError ''Phone number must be exactly 10 digits.''),
      [(''Bob'', \<lparr>name = ''Bob'', phones = [], birthday = None\<rparr>)]) \<and>
   add_contact [''Bob'', ''123''] [] =
     (''Give me name and phone please.'',
      [(''Bob'', \<lparr>name = ''Bob'', phones = [], birthday = None\<rparr>)])"
proof -
  have p: "Phone ''123'' = Inl (ValueError ''Phone number must be exactly 10 digits.'')"
    by (simp add: Phone_def re_match_phone_iff)
  show ?thesis
    by (simp add: p find_record_def add_contact_def add_contact_body_def Record_init_def
        Name_def input_error_def add_record_def add_phone_def)
qed

section \<open>Properties of the calendar\<close>

lemma new_date_Inr: "new_date y m d = Inr x \<longleftrightarrow>
   (x = \<lparr>year = y, month = m, day = d\<rparr> \<and> valid_date \<lparr>year = y, month = m, day = d\<rparr>)"
  by (auto simp: new_date_def valid_date_def)

lemma new_date_Inl: "new_date y m d = Inl e \<Longrightarrow> \<exists>msg. e = ValueError msg"
  by (auto simp: new_date_def split: if_splits)

lemma month_cases:
  assumes "1 \<le> m" "m \<le> 12"
  shows "m \<in> {1, 2, 3, 4, 5, 6, 7, 8, 9, 10, 11, 12::int}"
proof -
  have "m \<in> set [1..12]" using assms by simp
  moreover have "[1..12::int] = [1, 2, 3, 4, 5, 6, 7, 8, 9, 10, 11, 12]" by code_simp
  ultimately show ?thesis by simp
qed

lemma days_before_year_nonneg:
  assumes "1 \<le> y" shows "0 \<le> days_before_year y"
proof -
  have a: "0 \<le> (y - 1) * 365" using assms by simp
  have b: "(y - 1) div 100 \<le> (y - 1) div 4"
    using assms by (intro zdiv_mono2) simp_all
  have c: "0 \<le> (y - 1) div 400" using assms by (simp add: pos_imp_zdiv_nonneg_iff)
  from a b c show ?thesis unfolding days_before_year_def Let_def by linarith
qed

lemma days_before_year_max:
  assumes "1 \<le> y" "y \<le> 9999"
  shows "days_before_year y + 365 + (if is_leap y then 1 else 0) \<le> 3652059"
proof (cases "y = 9999")
  case True
  then show ?thesis by (simp add: days_before_year_def is_leap_def)
next
  case False
  with assms have le: "y - 1 \<le> 9997" by simp
  have a: "(y - 1) * 365 \<le> 9997 * 365" using le by simp
  have "(y - 1) div 4 \<le> 9997 div 4" using le by (intro zdiv_mono1) simp_all
  then have b: "(y - 1) div 4 \<le> 2499" by simp
  have c: "(y - 1) div 400 \<le> (y - 1) div 100"
    using assms by (intro zdiv_mono2) simp_all
  have "days_before_year y \<le> 9997 * 365 + 2499"
    using a b c unfolding days_before_year_def Let_def by linarith
  then show ?thesis by (simp split: if_splits)
qed

lemma day_of_year_bounds:
  assumes "1 \<le> m" "m \<le> 12" "1 \<le> d" "d \<le> days_in_month y m"
  shows "1 \<le> days_before_month y m + d"
    and "days_before_month y m + d \<le> 365 + (if is_leap y then 1 else 0)"
  using month_cases [OF assms(1,2)] assms(3,4)
  by (auto simp: days_before_month_def days_in_month_def DAYS_BEFORE_MONTH_def
      DAYS_IN_MONTH_def split: if_splits)

lemma toordinal_bounds:
  assumes "valid_date d"
  shows "1 \<le> toordinal d" and "toordinal d \<le> MAXORDINAL"
proof -
  from assms have v: "1 \<le> year d" "year d \<le> 9999" "1 \<le> month d" "month d \<le> 12"
    "1 \<le> day d" "day d \<le> days_in_month (year d) (month d)"
    by (simp_all add: valid_date_def)
  note b = day_of_year_bounds [OF v(3-6)]
  note mx = days_before_year_max [OF v(1,2)]
  show "1 \<le> toordinal d"
    using b(1) days_before_year_nonneg [OF v(1)] by (simp add: toordinal_def ymd2ord_def)
  show "toordinal d \<le> MAXORDINAL"
    using b(2) mx
    by (simp add: toordinal_def ymd2ord_def MAXORDINAL_def split: if_splits)
qed

lemma weekday_range: "0 \<le> weekday d \<and> weekday d < 7"
  by (simp add: weekday_def)

lemma adjust_for_weekend_valid:
  assumes "valid_date d"
  shows "adjust_for_weekend d = Inr (weekend_shift d)"
proof -
  note b = toordinal_bounds [OF assms]
  have sat: "toordinal d + 2 \<le> 3652059" if "weekday d = 5"
    using that b(2) unfolding weekday_def MAXORDINAL_def by arith
  have sun: "toordinal d + 1 \<le> 3652059" if "weekday d = 6"
    using that b(2) unfolding weekday_def MAXORDINAL_def by arith
  consider "weekday d = 5" | "weekday d = 6" | "weekday d < 5"
    using weekday_range [of d] by arith
  then show ?thesis
  proof cases
    case 1
    then show ?thesis using sat b(1)
      by (simp add: adjust_for_weekend_def find_next_weekday_def date_add_def weekend_shift_def
          plus_days_def MAXORDINAL_def)
  next
    case 2
    then show ?thesis using sun b(1)
      by (simp add: adjust_for_weekend_def find_next_weekday_def date_add_def weekend_shift_def
          plus_days_def MAXORDINAL_def)
  next
    case 3
    then show ?thesis
      by (simp add: adjust_for_weekend_def weekend_shift_def)
  qed
qed

subsection \<open>Ordinals and dates\<close>

text \<open>The month and the day that \<open>ord2ymd\<close> finds for the offset \<open>r\<close> in a year.\<close>

lemma month_of_offset:
  fixes r :: int
  assumes "0 \<le> r" "r \<le> 364"
    and m0_def: "m0 = (r + 50) div 32"
    and p0_def: "p0 = DAYS_BEFORE_MONTH ! nat m0 + (if m0 > 2 \<and> L then 1 else 0)"
    and m_def: "m = (if p0 > r then m0 - 1 else m0)"
    and p_def: "p = (if p0 > r
                 then p0 - (DAYS_IN_MONTH ! nat (m0 - 1) + (if m0 - 1 = 2 \<and> L then 1 else 0))
                 else p0)"
  shows "1 \<le> m \<and> m \<le> 12 \<and>
         p = DAYS_BEFORE_MONTH ! nat m + (if m > 2 \<and> L then 1 else 0) \<and>
         p \<le> r \<and> r - p + 1 \<le> (if m = 2 \<and> L then 29 else DAYS_IN_MONTH ! nat m)"
proof -
  have b: "32 * m0 \<le> r + 50" "r + 50 < 32 * m0 + 32"
    unfolding m0_def by arith+
  with assms(1,2) have "1 \<le> m0" "m0 \<le> 12" by arith+
  then have "m0 \<in> {1, 2, 3, 4, 5, 6, 7, 8, 9, 10, 11, 12}" by (rule month_cases)
  then consider "m0 = 1" | "m0 = 2" | "m0 = 3" | "m0 = 4" | "m0 = 5" | "m0 = 6" | "m0 = 7"
    | "m0 = 8" | "m0 = 9" | "m0 = 10" | "m0 = 11" | "m0 = 12" by auto
  then show ?thesis
  proof cases
    case 1 with b assms(1,2) show ?thesis
      by (simp add: m_def p_def p0_def DAYS_BEFORE_MONTH_def DAYS_IN_MONTH_def)
  next
    case 2 with b assms(1,2) show ?thesis
      by (simp add: m_def p_def p0_def DAYS_BEFORE_MONTH_def DAYS_IN_MONTH_def)
  next
    case 3 with b assms(1,2) show ?thesis
      by (simp add: m_def p_def p0_def DAYS_BEFORE_MONTH_def DAYS_IN_MONTH_def)
  next
    case 4 with b assms(1,2) show ?thesis
      by (simp add: m_def p_def p0_def DAYS_BEFORE_MONTH_def DAYS_IN_MONTH_def)
  next
    case 5 with b assms(1,2) show ?thesis
      by (simp add: m_def p_def p0_def DAYS_BEFORE_MONTH_def DAYS_IN_MONTH_def)
  next
    case 6 with b assms(1,2) show ?thesis
      by (simp add: m_def p_def p0_def DAYS_BEFORE_MONTH_def DAYS_IN_MONTH_def)
  next
    case 7 with b assms(1,2) show ?thesis
      by (simp add: m_def p_def p0_def DAYS_BEFORE_MONTH_def DAYS_IN_MONTH_def)
  next
    case 8 with b assms(1,2) show ?thesis
      by (simp add: m_def p_def p0_def DAYS_BEFORE_MONTH_def DAYS_IN_MONTH_def)
  next
    case 9 with b assms(1,2) show ?thesis
      by (simp add: m_def p_def p0_def DAYS_BEFORE_MONTH_def DAYS_IN_MONTH_def)
  next
    case 10 with b assms(1,2) show ?thesis
      by (simp add: m_def p_def p0_def DAYS_BEFORE_MONTH_def DAYS_IN_MONTH_def)
  next
    case 11 with b assms(1,2) show ?thesis
      by (simp add: m_def p_def p0_def DAYS_BEFORE_MONTH_def DAYS_IN_MONTH_def)
  next
    case 12 with b assms(1,2) show ?thesis
      by (simp add: m_def p_def p0_def DAYS_BEFORE_MONTH_def DAYS_IN_MONTH_def)
  qed
qed

lemma digit_div:
  fixes q r k :: int
  assumes "0 \<le> r" "r < k"
  shows "(q * k + r) div k = q"
proof -
  have "k \<noteq> 0" using assms by simp
  then have "(q * k + r) div k = q + r div k" by simp
  also have "r div k = 0" using assms by (simp add: div_pos_pos_trivial)
  finally show ?thesis by simp
qed

lemma digit_mod:
  fixes q r k :: int
  assumes "0 \<le> r" "r < k"
  shows "(q * k + r) mod k = r"
  using assms by (simp add: mod_pos_pos_trivial)

lemma digit_mod_zero:
  fixes q r k :: int
  assumes "0 < r" "r \<le> k"
  shows "(q * k + r) mod k = 0 \<longleftrightarrow> r = k"
proof (cases "r = k")
  case True
  then show ?thesis by simp
next
  case False
  with assms have "0 \<le> r" "r < k" by simp_all
  from digit_mod [OF this, of q] assms False show ?thesis by simp
qed

lemma days_before_year_digits:
  fixes a b c e :: int
  assumes "0 \<le> b" "b \<le> 3" "0 \<le> c" "c \<le> 24" "0 \<le> e" "e \<le> 3"
  shows "days_before_year (400 * a + 100 * b + 4 * c + e + 1) =
         146097 * a + 36524 * b + 1461 * c + 365 * e"
proof -
  have "((100 * a + 25 * b + c) * 4 + e) div 4 = 100 * a + 25 * b + c"
    using assms by (intro digit_div) simp_all
  then have d4: "(400 * a + 100 * b + 4 * c + e) div 4 = 100 * a + 25 * b + c"
    by (simp add: algebra_simps)
  have "((4 * a + b) * 100 + (4 * c + e)) div 100 = 4 * a + b"
    using assms by (intro digit_div) simp_all
  then have d100: "(400 * a + 100 * b + 4 * c + e) div 100 = 4 * a + b"
    by (simp add: algebra_simps)
  have "(a * 400 + (100 * b + 4 * c + e)) div 400 = a"
    using assms by (intro digit_div) simp_all
  then have d400: "(400 * a + 100 * b + 4 * c + e) div 400 = a"
    by (simp add: algebra_simps)
  show ?thesis
    by (simp add: days_before_year_def Let_def d4 d100 d400)
qed

lemma is_leap_digits:
  fixes a b c e :: int
  assumes "0 \<le> b" "b \<le> 3" "0 \<le> c" "c \<le> 24" "0 \<le> e" "e \<le> 3"
  shows "is_leap (400 * a + 100 * b + 4 * c + e + 1) \<longleftrightarrow> e = 3 \<and> (c \<noteq> 24 \<or> b = 3)"
proof -
  have "((100 * a + 25 * b + c) * 4 + (e + 1)) mod 4 = 0 \<longleftrightarrow> e + 1 = 4"
    using assms by (intro digit_mod_zero) simp_all
  then have m4: "(400 * a + 100 * b + 4 * c + e + 1) mod 4 = 0 \<longleftrightarrow> e = 3"
    by (simp add: algebra_simps)
  have "((4 * a + b) * 100 + (4 * c + e + 1)) mod 100 = 0 \<longleftrightarrow> 4 * c + e + 1 = 100"
    using assms by (intro digit_mod_zero) simp_all
  moreover have "4 * c + e + 1 = 100 \<longleftrightarrow> e = 3 \<and> c = 24" using assms by linarith
  ultimately have m100: "(400 * a + 100 * b + 4 * c + e + 1) mod 100 = 0 \<longleftrightarrow> e = 3 \<and> c = 24"
    by (simp add: algebra_simps)
  have "(a * 400 + (100 * b + 4 * c + e + 1)) mod 400 = 0 \<longleftrightarrow> 100 * b + 4 * c + e + 1 = 400"
    using assms by (intro digit_mod_zero) simp_all
  moreover have "100 * b + 4 * c + e + 1 = 400 \<longleftrightarrow> e = 3 \<and> c = 24 \<and> b = 3"
    using assms by linarith
  ultimately have m400:
    "(400 * a + 100 * b + 4 * c + e + 1) mod 400 = 0 \<longleftrightarrow> e = 3 \<and> c = 24 \<and> b = 3"
    by (simp add: algebra_simps)
  show ?thesis
    unfolding is_leap_def m4 m100 m400 by blast
qed

text \<open>\<open>ord2ymd\<close> returns a date of the calendar, and the one with the ordinal given.\<close>

lemma ord2ymd_ymd2ord:
  assumes "1 \<le> n"
  shows "\<exists>y m d. ord2ymd n = (y, m, d) \<and> 1 \<le> y \<and> 1 \<le> m \<and> m \<le> 12 \<and> 1 \<le> d \<and>
           d \<le> days_in_month y m \<and> ymd2ord y m d = n"
proof -
  define N where "N = n - 1"
  define n400 where "n400 = N div 146097"
  define r0 where "r0 = N mod 146097"
  define n100 where "n100 = r0 div 36524"
  define r1 where "r1 = r0 mod 36524"
  define n4 where "n4 = r1 div 1461"
  define r2 where "r2 = r1 mod 1461"
  define n1 where "n1 = r2 div 365"
  define r3 where "r3 = r2 mod 365"
  define y where "y = n400 * 400 + 1 + n100 * 100 + n4 * 4 + n1"
  define L where "L = (n1 = 3 \<and> (n4 \<noteq> 24 \<or> n100 = 3))"
  define m0 where "m0 = (r3 + 50) div 32"
  define p0 where "p0 = DAYS_BEFORE_MONTH ! nat m0 + (if m0 > 2 \<and> L then 1 else 0)"
  define m where "m = (if p0 > r3 then m0 - 1 else m0)"
  define p where "p = (if p0 > r3
                 then p0 - (DAYS_IN_MONTH ! nat (m0 - 1) + (if m0 - 1 = 2 \<and> L then 1 else 0))
                 else p0)"
  have ord0: "ord2ymd n =
     (if n1 = 4 \<or> n100 = 4 then (y - 1, 12, 31)
      else if p0 > r3
        then (y, m0 - 1,
              r3 - (p0 - (DAYS_IN_MONTH ! nat (m0 - 1) + (if m0 - 1 = 2 \<and> L then 1 else 0))) + 1)
        else (y, m0, r3 - p0 + 1))"
    unfolding ord2ymd_def Let_def N_def n400_def r0_def n100_def r1_def n4_def r2_def n1_def
      r3_def y_def L_def m0_def p0_def
    by (rule refl)
  have ord: "ord2ymd n =
     (if n1 = 4 \<or> n100 = 4 then (y - 1, 12, 31) else (y, m, r3 - p + 1))"
    unfolding ord0 m_def p_def by simp
  have N0: "0 \<le> N" using assms by (simp add: N_def)
  have e0: "N = 146097 * n400 + r0" by (simp add: n400_def r0_def)
  have e1: "r0 = 36524 * n100 + r1" by (simp add: n100_def r1_def)
  have e2: "r1 = 1461 * n4 + r2" by (simp add: n4_def r2_def)
  have e3: "r2 = 365 * n1 + r3" by (simp add: n1_def r3_def)
  have b0: "0 \<le> r0" "r0 < 146097" by (simp_all add: r0_def)
  have b1: "0 \<le> r1" "r1 < 36524" by (simp_all add: r1_def)
  have b2: "0 \<le> r2" "r2 < 1461" by (simp_all add: r2_def)
  have b3: "0 \<le> r3" "r3 < 365" by (simp_all add: r3_def)
  have q0: "0 \<le> n400" using N0 by (simp add: n400_def pos_imp_zdiv_nonneg_iff)
  have q1: "0 \<le> n100" using b0 by (simp add: n100_def pos_imp_zdiv_nonneg_iff)
  have q2: "0 \<le> n4" using b1 by (simp add: n4_def pos_imp_zdiv_nonneg_iff)
  have q3: "0 \<le> n1" using b2 by (simp add: n1_def pos_imp_zdiv_nonneg_iff)
  have u1: "n100 \<le> 4" using e1 b0 b1 by linarith
  have u2: "n4 \<le> 24" using e2 b1 b2 by linarith
  have u3: "n1 \<le> 4" using e3 b2 b3 by linarith
  show ?thesis
  proof (cases "n100 = 4")
    case True
    with e1 b0 b1 have "r1 = 0" by linarith
    then have z: "n4 = 0" "r2 = 0" "n1 = 0" "r3 = 0"
      by (simp_all add: n4_def r2_def n1_def r3_def)
    have yy: "y - 1 = 400 * n400 + 100 * 3 + 4 * 24 + 3 + 1" using True z by (simp add: y_def)
    have d: "days_before_year (y - 1) = 146097 * n400 + 36524 * 3 + 1461 * 24 + 365 * 3"
      unfolding yy by (rule days_before_year_digits) simp_all
    have l: "is_leap (y - 1)"
      unfolding yy by (subst is_leap_digits) simp_all
    have "ymd2ord (y - 1) 12 31 = n"
      using d l e0 e1 True \<open>r1 = 0\<close>
      by (simp add: ymd2ord_def days_before_month_def DAYS_BEFORE_MONTH_def N_def)
    moreover have "1 \<le> y - 1" using q0 yy by simp
    ultimately show ?thesis
      using True by (simp add: ord days_in_month_def DAYS_IN_MONTH_def)
  next
    case n100: False
    with u1 have u1': "n100 \<le> 3" by simp
    show ?thesis
    proof (cases "n1 = 4")
      case True
      with e3 b2 b3 have r3z: "r3 = 0" and r2: "r2 = 1460" by linarith+
      with e2 b1 u2 have u2': "n4 \<le> 23" by linarith
      have yy: "y - 1 = 400 * n400 + 100 * n100 + 4 * n4 + 3 + 1"
        using True by (simp add: y_def)
      have d: "days_before_year (y - 1) = 146097 * n400 + 36524 * n100 + 1461 * n4 + 365 * 3"
        unfolding yy using q1 u1' q2 u2' by (intro days_before_year_digits) simp_all
      have "is_leap (y - 1) \<longleftrightarrow> (3::int) = 3 \<and> (n4 \<noteq> 24 \<or> n100 = 3)"
        unfolding yy using q1 u1' q2 u2' by (intro is_leap_digits) simp_all
      then have l: "is_leap (y - 1)" using u2' by simp
      have "ymd2ord (y - 1) 12 31 = n"
        using d l e0 e1 e2 r2
        by (simp add: ymd2ord_def days_before_month_def DAYS_BEFORE_MONTH_def N_def)
      moreover have "1 \<le> y - 1" using q0 q1 q2 yy by simp
      ultimately show ?thesis
        using True by (simp add: ord days_in_month_def DAYS_IN_MONTH_def)
    next
      case n1: False
      with u3 have u3': "n1 \<le> 3" by simp
      have yy: "y = 400 * n400 + 100 * n100 + 4 * n4 + n1 + 1" by (simp add: y_def)
      have d: "days_before_year y = 146097 * n400 + 36524 * n100 + 1461 * n4 + 365 * n1"
        unfolding yy using q1 u1' q2 u2 q3 u3' by (intro days_before_year_digits) simp_all
      have l: "is_leap y \<longleftrightarrow> L"
        unfolding yy L_def using q1 u1' q2 u2 q3 u3' by (intro is_leap_digits) simp_all
      have r364: "r3 \<le> 364" using b3 by simp
      note mo = month_of_offset [OF b3(1) r364 m0_def p0_def m_def p_def]
      have dbm: "days_before_month y m = p" using mo l by (simp add: days_before_month_def)
      have dim: "r3 - p + 1 \<le> days_in_month y m" using mo l by (simp add: days_in_month_def)
      have "ymd2ord y m (r3 - p + 1) = n"
        using d dbm e0 e1 e2 e3 by (simp add: ymd2ord_def N_def)
      moreover have "1 \<le> y" using q0 q1 q2 q3 yy by simp
      moreover have "1 \<le> r3 - p + 1" using mo by simp
      ultimately show ?thesis
        using n100 n1 mo dim by (simp add: ord)
    qed
  qed
qed

lemma toordinal_fromordinal: "1 \<le> n \<Longrightarrow> toordinal (fromordinal n) = n"
  using ord2ymd_ymd2ord [of n] by (auto simp: fromordinal_def toordinal_def)

lemma toordinal_plus_days:
  assumes "valid_date d" "0 \<le> k"
  shows "toordinal (plus_days d k) = toordinal d + k"
  using toordinal_bounds(1) [OF assms(1)] assms(2)
  by (simp add: plus_days_def toordinal_fromordinal)

lemma weekend_shift_days:
  assumes "valid_date d"
  shows "days_between (weekend_shift d) d =
           (if weekday d = 5 then 2 else if weekday d = 6 then 1 else 0)"
  using assms by (simp add: weekend_shift_def days_between_def toordinal_plus_days)

lemma weekend_shift_weekday:
  assumes "valid_date d"
  shows "weekday (weekend_shift d) < 5"
proof -
  consider "weekday d = 5" | "weekday d = 6" | "weekday d < 5"
    using weekday_range [of d] by arith
  then show ?thesis
  proof cases
    case 1
    then have "(toordinal d + 2 + 6) mod 7 = 0" unfolding weekday_def by presburger
    with 1 assms show ?thesis
      by (simp add: weekend_shift_def weekday_def [of "plus_days d 2"] toordinal_plus_days)
  next
    case 2
    then have "(toordinal d + 1 + 6) mod 7 = 0" unfolding weekday_def by presburger
    with 2 assms show ?thesis
      by (simp add: weekend_shift_def weekday_def [of "plus_days d 1"] toordinal_plus_days)
  next
    case 3
    then show ?thesis by (simp add: weekend_shift_def)
  qed
qed

section \<open>Properties of the birthday query\<close>

lemma strptime_Inl: "strptime s = Inl e \<Longrightarrow> \<exists>msg. e = ValueError msg"
  by (auto simp: strptime_def split: list.splits option.splits dest: new_date_Inl)

lemma strptime_valid: "strptime s = Inr d \<Longrightarrow> valid_date d"
  by (auto simp: strptime_def new_date_Inr split: list.splits option.splits)

lemma birthday_this_year_Inl:
  "birthday_this_year today b = Inl e \<Longrightarrow> \<exists>msg. e = ValueError msg"
  by (auto simp: birthday_this_year_def replace_year_def
      split: sum.splits if_splits dest: new_date_Inl strptime_Inl)

lemma birthday_this_year_valid: "birthday_this_year today b = Inr d \<Longrightarrow> valid_date d"
  by (auto simp: birthday_this_year_def replace_year_def new_date_Inr
      split: sum.splits if_splits)

lemma upcoming_entry_candidate:
  assumes "birthday r = Some b" and "birthday_this_year today b = Inr d"
  shows "upcoming_entry today days r =
     Inr (if in_window today days d then Some (name r, strftime (weekend_shift d)) else None)"
  using assms adjust_for_weekend_valid [OF birthday_this_year_valid [OF assms(2)]]
  by (simp add: upcoming_entry_def in_window_def)

lemma upcoming_entry_spec:
  assumes "\<forall>b. birthday r = Some b \<longrightarrow> (\<exists>d. birthday_this_year today b = Inr d)"
  shows "upcoming_entry today days r = Inr (spec_entry today days r)"
proof (cases "birthday r")
  case None
  then show ?thesis by (simp add: upcoming_entry_def spec_entry_def)
next
  case (Some b)
  with assms obtain d where d: "birthday_this_year today b = Inr d" by blast
  show ?thesis
    using upcoming_entry_candidate [OF Some d] Some d by (simp add: spec_entry_def)
qed

lemma upcoming_entry_Inl:
  assumes "upcoming_entry today days r = Inl e"
  shows "\<exists>msg. e = ValueError msg"
proof (cases "birthday r")
  case None
  with assms show ?thesis by (simp add: upcoming_entry_def)
next
  case (Some b)
  show ?thesis
  proof (cases "birthday_this_year today b")
    case (Inl e')
    with Some assms have "e = e'" by (simp add: upcoming_entry_def)
    with Inl show ?thesis by (auto dest: birthday_this_year_Inl)
  next
    case (Inr d)
    from upcoming_entry_candidate [OF Some Inr] assms show ?thesis by simp
  qed
qed

lemma upcoming_loop_all:
  assumes "\<forall>r \<in> set rs. upcoming_entry today days r = Inr (f r)"
  shows "upcoming_loop today days rs acc = Inr (acc @ List.map_filter f rs)"
  using assms
proof (induction rs arbitrary: acc)
  case Nil
  show ?case by (simp add: List.map_filter_simps)
next
  case (Cons r rs)
  then show ?case by (cases "f r") (simp_all add: List.map_filter_simps)
qed

lemma upcoming_loop_failure:
  assumes "r \<in> set rs" and "upcoming_entry today days r = Inl e"
  shows "\<exists>r' \<in> set rs. \<exists>e'. upcoming_entry today days r' = Inl e' \<and>
           upcoming_loop today days rs acc = Inl e'"
  using assms
proof (induction rs arbitrary: acc)
  case Nil
  then show ?case by simp
next
  case (Cons x rs)
  show ?case
  proof (cases "upcoming_entry today days x")
    case (Inl e')
    then show ?thesis by auto
  next
    case (Inr y)
    with Cons.prems have "r \<in> set rs" by auto
    from Cons.IH [OF this Cons.prems(2)] Inr show ?thesis
      by (cases y) auto
  qed
qed

lemma leap_day_fails:
  assumes "strptime b = Inr bd" "month bd = 2" "day bd = 29" "\<not> is_leap (year today)"
  shows "\<exists>msg. birthday_this_year today b = Inl (ValueError msg)"
  using assms
  by (simp add: birthday_this_year_def replace_year_def new_date_def days_in_month_def
      DAYS_IN_MONTH_def)


lemma candidates_exist_iff:
  "candidates_exist today rs \<longleftrightarrow>
     (\<forall>r \<in> set rs. \<forall>b. birthday r = Some b \<longrightarrow> (\<exists>d. birthday_this_year today b = Inr d))"
proof -
  have h: "(case birthday r of None \<Rightarrow> True
         | Some b \<Rightarrow> (case birthday_this_year today b of Inl e \<Rightarrow> False | Inr d \<Rightarrow> True)) \<longleftrightarrow>
        (\<forall>b. birthday r = Some b \<longrightarrow> (\<exists>d. birthday_this_year today b = Inr d))" for r
  proof (cases "birthday r")
    case None
    then show ?thesis by simp
  next
    case (Some b)
    then show ?thesis by (cases "birthday_this_year today b") simp_all
  qed
  show ?thesis by (simp only: candidates_exist_def list_all_iff h)
qed

lemma upcoming_entry_failure:
  "birthday r = Some b \<Longrightarrow> birthday_this_year today b = Inl e \<Longrightarrow>
   upcoming_entry today days r = Inl e"
  by (simp add: upcoming_entry_def)

lemma upcoming_loop_returns:
  "(\<exists>res. upcoming_loop today days rs acc = Inr res) \<longleftrightarrow> candidates_exist today rs"
proof
  assume "candidates_exist today rs"
  then have "\<forall>r \<in> set rs. upcoming_entry today days r = Inr (spec_entry today days r)"
    using upcoming_entry_spec by (simp add: candidates_exist_iff)
  from upcoming_loop_all [OF this] show "\<exists>res. upcoming_loop today days rs acc = Inr res"
    by blast
next
  assume r: "\<exists>res. upcoming_loop today days rs acc = Inr res"
  show "candidates_exist today rs"
  proof (rule ccontr)
    assume "\<not> candidates_exist today rs"
    then obtain x b where x: "x \<in> set rs" "birthday x = Some b"
      and n: "\<forall>d. birthday_this_year today b \<noteq> Inr d"
      by (auto simp: candidates_exist_iff)
    from n obtain e where "birthday_this_year today b = Inl e"
      by (cases "birthday_this_year today b") auto
    from upcoming_entry_failure [OF x(2) this] have "upcoming_entry today days x = Inl e" .
    from upcoming_loop_failure [OF x(1) this, of acc] r show False by auto
  qed
qed

lemma upcoming_loop_Inl:
  assumes "upcoming_loop today days rs acc = Inl e"
  shows "\<exists>msg. e = ValueError msg"
  using assms
proof (induction rs arbitrary: acc)
  case Nil
  then show ?case by simp
next
  case (Cons r rs)
  show ?case
  proof (cases "upcoming_entry today days r")
    case (Inl e')
    with Cons.prems have "e = e'" by simp
    with Inl show ?thesis by (auto dest: upcoming_entry_Inl)
  next
    case (Inr x)
    with Cons show ?thesis by (cases x) auto
  qed
qed

lemma set_map_filter: "set (List.map_filter f xs) = {y. \<exists>x \<in> set xs. f x = Some y}"
  by (induction xs) (auto simp: List.map_filter_simps split: option.splits)

lemma spec_entry_name: "spec_entry today days r = Some (n, s) \<Longrightarrow> n = name r"
  by (auto simp: spec_entry_def split: option.splits sum.splits if_splits)

lemma spec_entry_candidate:
  "birthday r = Some b \<Longrightarrow> birthday_this_year today b = Inr d \<Longrightarrow>
   spec_entry today days r =
     (if in_window today days d then Some (name r, strftime (weekend_shift d)) else None)"
  by (simp add: spec_entry_def)

lemma included_iff:
  assumes "distinct (map name rs)" and "r \<in> set rs"
    and "birthday r = Some b" and "birthday_this_year today b = Inr d"
  shows "(\<exists>s. (name r, s) \<in> set (List.map_filter (spec_entry today days) rs)) \<longleftrightarrow>
           in_window today days d"
    and "in_window today days d \<Longrightarrow>
           (name r, strftime (weekend_shift d)) \<in> set (List.map_filter (spec_entry today days) rs)"
proof -
  note e = spec_entry_candidate [OF assms(3,4), of days]
  show inc: "(name r, strftime (weekend_shift d)) \<in> set (List.map_filter (spec_entry today days) rs)"
    if "in_window today days d"
    using that e assms(2) by (auto simp: set_map_filter)
  have inj: "inj_on name (set rs)" using assms(1) by (simp add: distinct_map)
  show "(\<exists>s. (name r, s) \<in> set (List.map_filter (spec_entry today days) rs)) \<longleftrightarrow>
           in_window today days d"
  proof
    assume "\<exists>s. (name r, s) \<in> set (List.map_filter (spec_entry today days) rs)"
    then obtain s x where x: "x \<in> set rs" "spec_entry today days x = Some (name r, s)"
      by (auto simp: set_map_filter)
    from spec_entry_name [OF x(2)] have "name x = name r" by simp
    with inj x(1) assms(2) have "x = r" by (auto dest: inj_onD)
    with x(2) e show "in_window today days d" by (auto split: if_splits)
  next
    assume "in_window today days d"
    from inc [OF this] show "\<exists>s. (name r, s) \<in> set (List.map_filter (spec_entry today days) rs)"
      by blast
  qed
qed

lemma upcoming_loop_spec:
  "upcoming_loop today days rs acc =
     (case spec_upcoming today days rs of Inl e \<Rightarrow> Inl e | Inr es \<Rightarrow> Inr (acc @ es))"
proof (induction rs arbitrary: acc)
  case Nil
  show ?case by simp
next
  case (Cons r rs)
  show ?case
  proof (cases "birthday r")
    case None
    then show ?thesis using Cons [of acc] by (simp add: upcoming_entry_def)
  next
    case (Some b)
    show ?thesis
    proof (cases "birthday_this_year today b")
      case (Inl e)
      with Some show ?thesis by (simp add: upcoming_entry_failure)
    next
      case (Inr d)
      note u = upcoming_entry_candidate [OF Some Inr, of days]
      show ?thesis
      proof (cases "in_window today days d")
        case True
        with Some Inr u Cons [of "acc @ [(name r, strftime (weekend_shift d))]"]
        show ?thesis by (simp split: sum.splits)
      next
        case False
        with Some Inr u Cons [of acc] show ?thesis by (simp split: sum.splits)
      qed
    qed
  qed
qed

text \<open>
  Claim C1, as the code has it. The query returns a result exactly when every stored
  birthday has a candidate date; otherwise it raises \<open>ValueError\<close> and includes no
  record. When it returns, the result holds the entries of the specification in the
  order of the book; with the names of the stored records distinct, as the keys of the
  dictionary are, a record with a birthday is included exactly when its unshifted
  candidate date lies in the window, and it is reported with the candidate after the
  weekend shift, which is two days later for a Saturday, one day later for a Sunday
  and the candidate itself otherwise, never a weekend day. With the clock at
  2024-06-10 and the birthday 15.06.1990 the record is reported with 2024-06-17.
\<close>

theorem upcoming_window_when_returns:
  "((\<exists>res. get_upcoming_birthdays env book days = Inr res) \<longleftrightarrow>
      candidates_exist (date_today env) (dict_values book)) \<and>
   (\<not> candidates_exist (date_today env) (dict_values book) \<longrightarrow>
      (\<exists>msg. get_upcoming_birthdays env book days = Inl (ValueError msg))) \<and>
   (\<forall>res. get_upcoming_birthdays env book days = Inr res \<longrightarrow>
      res = List.map_filter (spec_entry (date_today env) days) (dict_values book) \<and>
      (distinct (map name (dict_values book)) \<longrightarrow>
         (\<forall>r \<in> set (dict_values book). \<forall>b d.
            birthday r = Some b \<and> birthday_this_year (date_today env) b = Inr d \<longrightarrow>
              ((\<exists>s. (name r, s) \<in> set res) \<longleftrightarrow> in_window (date_today env) days d) \<and>
              (in_window (date_today env) days d \<longrightarrow>
                 (name r, strftime (weekend_shift d)) \<in> set res) \<and>
              days_between (weekend_shift d) d =
                (if weekday d = 5 then 2 else if weekday d = 6 then 1 else 0) \<and>
              weekday (weekend_shift d) < 5))) \<and>
   get_upcoming_birthdays \<lparr>clock_date = \<lparr>year = 2024, month = 6, day = 10\<rparr>\<rparr>
     [(''Bob'', \<lparr>name = ''Bob'', phones = [], birthday = Some ''15.06.1990''\<rparr>)] 7
   = Inr [(''Bob'', ''2024-06-17'')]"
proof -
  let ?today = "date_today env"
  let ?rs = "dict_values book"
  have q: "get_upcoming_birthdays env book days = upcoming_loop ?today days ?rs []"
    by (simp add: get_upcoming_birthdays_def)
  have a: "(\<exists>res. get_upcoming_birthdays env book days = Inr res) \<longleftrightarrow>
      candidates_exist ?today ?rs"
    unfolding q by (rule upcoming_loop_returns)
  have b: "\<exists>msg. get_upcoming_birthdays env book days = Inl (ValueError msg)"
    if "\<not> candidates_exist ?today ?rs"
  proof (cases "get_upcoming_birthdays env book days")
    case (Inl e)
    then show ?thesis using upcoming_loop_Inl [of ?today days ?rs "[]" e] by (auto simp: q)
  next
    case (Inr res)
    with a that show ?thesis by blast
  qed
  have c: "res = List.map_filter (spec_entry ?today days) ?rs"
    if r: "get_upcoming_birthdays env book days = Inr res" for res
  proof -
    from r a have "candidates_exist ?today ?rs" by blast
    then have "\<forall>r \<in> set ?rs. upcoming_entry ?today days r = Inr (spec_entry ?today days r)"
      using upcoming_entry_spec by (simp add: candidates_exist_iff)
    from upcoming_loop_all [OF this, of "[]"] r show ?thesis by (simp add: q)
  qed
  have d: "((\<exists>s. (name r, s) \<in> set res) \<longleftrightarrow> in_window ?today days d) \<and>
           (in_window ?today days d \<longrightarrow> (name r, strftime (weekend_shift d)) \<in> set res) \<and>
           days_between (weekend_shift d) d =
             (if weekday d = 5 then 2 else if weekday d = 6 then 1 else 0) \<and>
           weekday (weekend_shift d) < 5"
    if "get_upcoming_birthdays env book days = Inr res" "distinct (map name ?rs)"
      "r \<in> set ?rs" "birthday r = Some b" "birthday_this_year ?today b = Inr d"
    for res r b d
  proof -
    note v = birthday_this_year_valid [OF that(5)]
    from included_iff [OF that(2-5), of days] c [OF that(1)]
      weekend_shift_days [OF v] weekend_shift_weekday [OF v]
    show ?thesis by simp
  qed
  have e: "get_upcoming_birthdays \<lparr>clock_date = \<lparr>year = 2024, month = 6, day = 10\<rparr>\<rparr>
     [(''Bob'', \<lparr>name = ''Bob'', phones = [], birthday = Some ''15.06.1990''\<rparr>)] 7
   = Inr [(''Bob'', ''2024-06-17'')]"
    by code_simp
  from a b c d e show ?thesis by blast
qed

text \<open>
  The theorem of C1 at a book of two records with the clock at 2024-06-10: Bob's
  candidate 2024-06-15 is a Saturday in the window and is reported two days later,
  Ann's candidate 2025-01-01 is outside the window.
\<close>

theorem upcoming_window_when_returns_witness:
  "get_upcoming_birthdays \<lparr>clock_date = \<lparr>year = 2024, month = 6, day = 10\<rparr>\<rparr>
     [(''Ann'', \<lparr>name = ''Ann'', phones = [], birthday = Some ''01.01.1990''\<rparr>),
      (''Bob'', \<lparr>name = ''Bob'', phones = [], birthday = Some ''15.06.1990''\<rparr>)] 7
     = Inr [(''Bob'', ''2024-06-17'')] \<and>
   candidates_exist \<lparr>year = 2024, month = 6, day = 10\<rparr>
     [\<lparr>name = ''Ann'', phones = [], birthday = Some ''01.01.1990''\<rparr>,
      \<lparr>name = ''Bob'', phones = [], birthday = Some ''15.06.1990''\<rparr>] \<and>
   birthday_this_year \<lparr>year = 2024, month = 6, day = 10\<rparr> ''15.06.1990''
     = Inr \<lparr>year = 2024, month = 6, day = 15\<rparr> \<and>
   in_window \<lparr>year = 2024, month = 6, day = 10\<rparr> 7 \<lparr>year = 2024, month = 6, day = 15\<rparr> \<and>
   weekday \<lparr>year = 2024, month = 6, day = 15\<rparr> = 5 \<and>
   days_between (weekend_shift \<lparr>year = 2024, month = 6, day = 15\<rparr>)
     \<lparr>year = 2024, month = 6, day = 15\<rparr> = 2 \<and>
   birthday_this_year \<lparr>year = 2024, month = 6, day = 10\<rparr> ''01.01.1990''
     = Inr \<lparr>year = 2025, month = 1, day = 1\<rparr> \<and>
   \<not> in_window \<lparr>year = 2024, month = 6, day = 10\<rparr> 7 \<lparr>year = 2025, month = 1, day = 1\<rparr>"
proof -
  let ?today = "\<lparr>year = 2024, month = 6, day = 10\<rparr>"
  let ?env = "\<lparr>clock_date = ?today\<rparr>"
  let ?ann = "\<lparr>name = ''Ann'', phones = [], birthday = Some ''01.01.1990''\<rparr>"
  let ?bob = "\<lparr>name = ''Bob'', phones = [], birthday = Some ''15.06.1990''\<rparr>"
  let ?book = "[(''Ann'', ?ann), (''Bob'', ?bob)]"
  let ?d = "\<lparr>year = 2024, month = 6, day = 15\<rparr>"
  let ?a = "\<lparr>year = 2025, month = 1, day = 1\<rparr>"
  have q: "get_upcoming_birthdays ?env ?book 7 = Inr [(''Bob'', ''2024-06-17'')]" by code_simp
  have t: "date_today ?env = ?today" by (simp add: date_today_def)
  have v: "dict_values ?book = [?ann, ?bob]" by (simp add: dict_values_def)
  have cb: "birthday_this_year ?today ''15.06.1990'' = Inr ?d" by code_simp
  have ca: "birthday_this_year ?today ''01.01.1990'' = Inr ?a" by code_simp
  have w: "weekday ?d = 5" by code_simp
  have ib: "in_window ?today 7 ?d" by code_simp
  have ia: "\<not> in_window ?today 7 ?a" by code_simp
  note th = upcoming_window_when_returns [of ?env ?book 7, unfolded t v]
  from th q have ce: "candidates_exist ?today [?ann, ?bob]" by blast
  from th q have "distinct (map name [?ann, ?bob]) \<longrightarrow>
         (\<forall>r \<in> set [?ann, ?bob]. \<forall>b d.
            birthday r = Some b \<and> birthday_this_year ?today b = Inr d \<longrightarrow>
              ((\<exists>s. (name r, s) \<in> set [(''Bob'', ''2024-06-17'')]) \<longleftrightarrow> in_window ?today 7 d) \<and>
              (in_window ?today 7 d \<longrightarrow>
                 (name r, strftime (weekend_shift d)) \<in> set [(''Bob'', ''2024-06-17'')]) \<and>
              days_between (weekend_shift d) d =
                (if weekday d = 5 then 2 else if weekday d = 6 then 1 else 0) \<and>
              weekday (weekend_shift d) < 5)"
    by blast
  then have all: "\<forall>r \<in> set [?ann, ?bob]. \<forall>b d.
            birthday r = Some b \<and> birthday_this_year ?today b = Inr d \<longrightarrow>
              ((\<exists>s. (name r, s) \<in> set [(''Bob'', ''2024-06-17'')]) \<longleftrightarrow> in_window ?today 7 d) \<and>
              days_between (weekend_shift d) d =
                (if weekday d = 5 then 2 else if weekday d = 6 then 1 else 0)"
    by simp
  from all cb have sb: "days_between (weekend_shift ?d) ?d = 2" using w by simp
  from q ce cb ib w sb ca ia show ?thesis by blast
qed

text \<open>
  C1 as stated fails when another record of the book has no candidate date: with the
  clock at 2023-06-10, Ann's candidate is two days ahead, but Bob's birthday is a
  29 February, so the query raises and includes nobody.
\<close>

theorem upcoming_fails_for_all_counterexample:
  "birthday_this_year \<lparr>year = 2023, month = 6, day = 10\<rparr> ''12.06.1990''
     = Inr \<lparr>year = 2023, month = 6, day = 12\<rparr> \<and>
   days_between \<lparr>year = 2023, month = 6, day = 12\<rparr> \<lparr>year = 2023, month = 6, day = 10\<rparr> = 2 \<and>
   get_upcoming_birthdays \<lparr>clock_date = \<lparr>year = 2023, month = 6, day = 10\<rparr>\<rparr>
     [(''Ann'', \<lparr>name = ''Ann'', phones = [], birthday = Some ''12.06.1990''\<rparr>),
      (''Bob'', \<lparr>name = ''Bob'', phones = [], birthday = Some ''29.02.2000''\<rparr>)] 7
     = Inl (ValueError ''day is out of range for month'')"
  by code_simp



text \<open>
  Claim C6. When the book holds a record whose birthday is a 29 February and the year
  of \<open>today\<close> is not a leap year, the query returns no result: it fails with a
  \<open>ValueError\<close>.
\<close>

theorem leap_day_birthday_fails:
  assumes "r \<in> set (dict_values book)" and "birthday r = Some b"
    and "strptime b = Inr bd" and "month bd = 2" and "day bd = 29"
    and "\<not> is_leap (year (date_today env))"
  shows "\<exists>msg. get_upcoming_birthdays env book days = Inl (ValueError msg)"
proof -
  from leap_day_fails [OF assms(3-6)] obtain msg
    where "birthday_this_year (date_today env) b = Inl (ValueError msg)" by blast
  with assms(2) have "upcoming_entry (date_today env) days r = Inl (ValueError msg)"
    by (simp add: upcoming_entry_def)
  from upcoming_loop_failure [OF assms(1) this, of "[]"] obtain r' e'
    where e: "upcoming_entry (date_today env) days r' = Inl e'"
      and l: "upcoming_loop (date_today env) days (dict_values book) [] = Inl e'"
    by blast
  from upcoming_entry_Inl [OF e] l show ?thesis
    by (auto simp: get_upcoming_birthdays_def)
qed

text \<open>The theorem of C6 at the birthday 29.02.2000 with the clock at 2023-02-20.\<close>

theorem leap_day_birthday_fails_witness:
  "\<lparr>name = ''Bob'', phones = [], birthday = Some ''29.02.2000''\<rparr>
     \<in> set (dict_values [(''Bob'', \<lparr>name = ''Bob'', phones = [], birthday = Some ''29.02.2000''\<rparr>)]) \<and>
   strptime ''29.02.2000'' = Inr \<lparr>year = 2000, month = 2, day = 29\<rparr> \<and>
   \<not> is_leap (year (date_today \<lparr>clock_date = \<lparr>year = 2023, month = 2, day = 20\<rparr>\<rparr>)) \<and>
   (\<exists>msg. get_upcoming_birthdays \<lparr>clock_date = \<lparr>year = 2023, month = 2, day = 20\<rparr>\<rparr>
      [(''Bob'', \<lparr>name = ''Bob'', phones = [], birthday = Some ''29.02.2000''\<rparr>)] 7
      = Inl (ValueError msg))"
proof -
  let ?r = "\<lparr>name = ''Bob'', phones = [], birthday = Some ''29.02.2000''\<rparr>"
  let ?env = "\<lparr>clock_date = \<lparr>year = 2023, month = 2, day = 20\<rparr>\<rparr>"
  have m: "?r \<in> set (dict_values [(''Bob'', ?r)])" by (simp add: dict_values_def)
  have b: "birthday ?r = Some ''29.02.2000''" by simp
  have p: "strptime ''29.02.2000'' = Inr \<lparr>year = 2000, month = 2, day = 29\<rparr>" by code_simp
  have l: "\<not> is_leap (year (date_today ?env))" by (simp add: date_today_def is_leap_def)
  show ?thesis
    using leap_day_birthday_fails [OF m b p _ _ l, of 7] m p l by simp
qed

text \<open>
  Claim C7, as the code has it. The caller supplies the horizon only, 7 when it is
  left out; the reference date is the one the system clock shows. The result is the
  birthday window of the specification for the book, the clock's date and the horizon.
\<close>

theorem upcoming_is_spec_at_clock:
  "get_upcoming_birthdays env book days =
     spec_upcoming (date_today env) days (dict_values book) \<and>
   get_upcoming_birthdays_default env book =
     spec_upcoming (date_today env) 7 (dict_values book)"
proof -
  have "get_upcoming_birthdays env book h = spec_upcoming (date_today env) h (dict_values book)"
    for h
    using upcoming_loop_spec [of "date_today env" h "dict_values book" "[]"]
    by (simp add: get_upcoming_birthdays_def split: sum.splits)
  then show ?thesis by (simp add: get_upcoming_birthdays_default_def)
qed

text \<open>
  The theorem of C7 at the example of C1, called without a horizon and with the
  horizon 3.
\<close>

theorem upcoming_is_spec_at_clock_witness:
  "get_upcoming_birthdays_default \<lparr>clock_date = \<lparr>year = 2024, month = 6, day = 10\<rparr>\<rparr>
     [(''Bob'', \<lparr>name = ''Bob'', phones = [], birthday = Some ''15.06.1990''\<rparr>)]
     = Inr [(''Bob'', ''2024-06-17'')] \<and>
   get_upcoming_birthdays \<lparr>clock_date = \<lparr>year = 2024, month = 6, day = 10\<rparr>\<rparr>
     [(''Bob'', \<lparr>name = ''Bob'', phones = [], birthday = Some ''15.06.1990''\<rparr>)] 3
     = Inr []"
proof -
  let ?today = "\<lparr>year = 2024, month = 6, day = 10\<rparr>"
  let ?bob = "\<lparr>name = ''Bob'', phones = [], birthday = Some ''15.06.1990''\<rparr>"
  have s7: "spec_upcoming ?today 7 [?bob] = Inr [(''Bob'', ''2024-06-17'')]" by code_simp
  have s3: "spec_upcoming ?today 3 [?bob] = Inr []" by code_simp
  show ?thesis
    using upcoming_is_spec_at_clock [of "\<lparr>clock_date = ?today\<rparr>" "[(''Bob'', ?bob)]"] s7 s3
    by (simp add: date_today_def dict_values_def)
qed

text \<open>
  C7 as stated fails: two calls with the same book and the same horizon return
  different results when the clock shows different dates.
\<close>

theorem upcoming_clock_counterexample:
  "get_upcoming_birthdays \<lparr>clock_date = \<lparr>year = 2024, month = 6, day = 10\<rparr>\<rparr>
     [(''Bob'', \<lparr>name = ''Bob'', phones = [], birthday = Some ''15.06.1990''\<rparr>)] 7
     = Inr [(''Bob'', ''2024-06-17'')] \<and>
   get_upcoming_birthdays \<lparr>clock_date = \<lparr>year = 2024, month = 7, day = 10\<rparr>\<rparr>
     [(''Bob'', \<lparr>name = ''Bob'', phones = [], birthday = Some ''15.06.1990''\<rparr>)] 7
     = Inr []"
  by code_simp

end
